theory Spec2Isabelle
  imports Complex_Main
begin

section \<open>Numbers\<close>

text \<open>
  A JavaScript \<open>number\<close> is modelled as a real or \<open>NaN\<close>. Rounding and the infinities
  are outside the model: arithmetic on \<open>Number\<close> is exact. \<open>NaN\<close> is kept because the
  program produces it without any rounding: reading an array past its end gives
  \<open>undefined\<close>, and \<open>undefined\<close> in arithmetic is \<open>NaN\<close>, which every later operation
  propagates.
\<close>

datatype jsnum = Number real | NaN

fun nadd :: "jsnum \<Rightarrow> jsnum \<Rightarrow> jsnum" where
  "nadd (Number x) (Number y) = Number (x + y)"
| "nadd _ _ = NaN"

fun nsub :: "jsnum \<Rightarrow> jsnum \<Rightarrow> jsnum" where
  "nsub (Number x) (Number y) = Number (x - y)"
| "nsub _ _ = NaN"

fun nmul :: "jsnum \<Rightarrow> jsnum \<Rightarrow> jsnum" where
  "nmul (Number x) (Number y) = Number (x * y)"
| "nmul _ _ = NaN"

text \<open>
  Every division of the program has a divisor that is zero only when the dividend is zero
  too (an empty sum over the length 0, an empty dot product over \<open>sqrt 0\<close>), and
  \<open>0 / 0\<close> is \<open>NaN\<close>.
\<close>

fun ndiv :: "jsnum \<Rightarrow> jsnum \<Rightarrow> jsnum" where
  "ndiv (Number x) (Number y) = (if y = 0 then NaN else Number (x / y))"
| "ndiv _ _ = NaN"

fun nneg :: "jsnum \<Rightarrow> jsnum" where
  "nneg (Number x) = Number (- x)"
| "nneg NaN = NaN"

text \<open>\<open>Math.max\<close> of two arguments: \<open>NaN\<close> when either is.\<close>

fun nmax :: "jsnum \<Rightarrow> jsnum \<Rightarrow> jsnum" where
  "nmax (Number x) (Number y) = Number (max x y)"
| "nmax _ _ = NaN"

fun nexp :: "jsnum \<Rightarrow> jsnum" where
  "nexp (Number x) = Number (exp x)"
| "nexp NaN = NaN"

fun nsqrt :: "jsnum \<Rightarrow> jsnum" where
  "nsqrt (Number x) = (if x < 0 then NaN else Number (sqrt x))"
| "nsqrt NaN = NaN"

text \<open>\<open>Math.log\<close>; the program only calls it on a value floored at \<open>1e-10\<close>.\<close>

fun nlog :: "jsnum \<Rightarrow> jsnum" where
  "nlog (Number x) = (if x \<le> 0 then NaN else Number (ln x))"
| "nlog NaN = NaN"

text \<open>\<open>a > b\<close>: false when either side is \<open>NaN\<close>.\<close>

fun ngt :: "jsnum \<Rightarrow> jsnum \<Rightarrow> bool" where
  "ngt (Number x) (Number y) = (x > y)"
| "ngt _ _ = False"

type_synonym vec = "jsnum list"
type_synonym matrix = "jsnum list list"

text \<open>\<open>xs[i]\<close> used as a number: \<open>undefined\<close>, hence \<open>NaN\<close>, past the end.\<close>

definition getN :: "vec \<Rightarrow> nat \<Rightarrow> jsnum" where
  "getN xs i = (if i < length xs then xs ! i else NaN)"

section \<open>Vector operations (math.ts)\<close>

text \<open>
  \<open>Math.max(...x)\<close> on a non-empty array. (On the empty array it is \<open>-Infinity\<close>,
  which \<open>softmax\<close> never uses: its maps run over no element.)
\<close>

fun maxOf :: "jsnum \<Rightarrow> vec \<Rightarrow> jsnum" where
  "maxOf m [] = m"
| "maxOf m (v # vs) = maxOf (nmax m v) vs"

definition softmax :: "vec \<Rightarrow> vec" where
  "softmax x =
     (case x of
        [] \<Rightarrow> []
      | x0 # rest \<Rightarrow>
          (let maxVal = maxOf x0 rest;
               expValues = map (\<lambda>v. nexp (nsub v maxVal)) x;
               sumExp = foldl nadd (Number 0) expValues
           in map (\<lambda>v. ndiv v sumExp) expValues))"

text \<open>
  \<open>a.reduce((sum, v, i) => sum + v * b[i], 0)\<close>: the accumulator runs left to right over
  \<open>a\<close>; where \<open>b\<close> is shorter, \<open>b[i]\<close> is \<open>undefined\<close> and the product is \<open>NaN\<close>.
\<close>

fun dotFrom :: "jsnum \<Rightarrow> vec \<Rightarrow> vec \<Rightarrow> jsnum" where
  "dotFrom s [] ys = s"
| "dotFrom s (v # vs) [] = dotFrom (nadd s (nmul v NaN)) vs []"
| "dotFrom s (v # vs) (y # ys) = dotFrom (nadd s (nmul v y)) vs ys"

definition dotProduct :: "vec \<Rightarrow> vec \<Rightarrow> jsnum" where
  "dotProduct a ys = dotFrom (Number 0) a ys"

definition matVecMul :: "matrix \<Rightarrow> vec \<Rightarrow> vec" where
  "matVecMul m v = map (\<lambda>row. dotProduct row v) m"

text \<open>\<open>a.map((v, i) => v + b[i])\<close>: as long as \<open>a\<close>; \<open>NaN\<close> where \<open>b\<close> is shorter.\<close>

fun vecAdd :: "vec \<Rightarrow> vec \<Rightarrow> vec" where
  "vecAdd [] ys = []"
| "vecAdd (v # vs) [] = nadd v NaN # vecAdd vs []"
| "vecAdd (v # vs) (y # ys) = nadd v y # vecAdd vs ys"

definition relu :: "vec \<Rightarrow> vec" where
  "relu x = map (\<lambda>v. nmax (Number 0) v) x"

definition layerNorm :: "vec \<Rightarrow> vec" where
  "layerNorm x =
     (let n = Number (real (length x));
          mean = ndiv (foldl nadd (Number 0) x) n;
          variance =
            ndiv (foldl (\<lambda>s v. nadd s (nmul (nsub v mean) (nsub v mean))) (Number 0) x) n;
          std = nsqrt (nadd variance (Number (1 / 100000)))
      in map (\<lambda>v. ndiv (nsub v mean) std) x)"

text \<open>\<open>predicted[targetIndex]\<close> is \<open>undefined\<close> for an index outside the array.\<close>

definition crossEntropyLoss :: "vec \<Rightarrow> int \<Rightarrow> jsnum" where
  "crossEntropyLoss predicted targetIndex =
     (let p = (if 0 \<le> targetIndex then getN predicted (nat targetIndex) else NaN);
          prob = nmax p (Number (1 / 10000000000))
      in nneg (nlog prob))"

text \<open>The mean and the variance \<open>layerNorm\<close> computes, as functions of their own.\<close>

definition meanOf :: "real list \<Rightarrow> real" where
  "meanOf rs = sum_list rs / real (length rs)"

definition varianceOf :: "real list \<Rightarrow> real" where
  "varianceOf rs = (\<Sum>r\<leftarrow>rs. (r - meanOf rs) * (r - meanOf rs)) / real (length rs)"

section \<open>The model (model.ts)\<close>

text \<open>A \<open>TypeError\<close> is the only exception the engine can raise: a property read on \<open>undefined\<close>.\<close>

datatype error = TypeError

record AttentionHead =
  Wq :: matrix
  Wk :: matrix
  Wv :: matrix

record Attention =
  heads :: "AttentionHead list"

record FFN =
  W1 :: matrix
  b1 :: vec
  W2 :: matrix
  b2 :: vec

record TransformerLayer =
  attention :: Attention
  ffn :: FFN

record OutputLayer =
  W :: matrix
  b :: vec

text \<open>The field \<open>output\<close> of \<open>Weights\<close> is named \<open>outputLayer\<close> here.\<close>

record Weights =
  embeddings :: matrix
  layers :: "TransformerLayer list"
  outputLayer :: OutputLayer

record LayerOutput =
  attentionScores :: "matrix list"
  attentionOutput :: matrix
  ffnOutput :: matrix

text \<open>
  \<open>ForwardResult\<close>; its field \<open>embeddings\<close> is named \<open>embeddingsSnapshot\<close> here, after the
  local it is filled from, since \<open>Weights\<close> has a field \<open>embeddings\<close> too.
\<close>

record ForwardResult =
  inputTokens :: "int list"
  embeddingsSnapshot :: matrix
  layerOutputs :: "LayerOutput list"
  logits :: vec
  probabilities :: vec
  predictedToken :: nat
  loss :: "jsnum option"
  targetToken :: "int option"

text \<open>\<open>xs[i]\<close> for a number \<open>i\<close>: \<open>undefined\<close> (\<open>None\<close>) outside the array.\<close>

definition getAt :: "'a list \<Rightarrow> int \<Rightarrow> 'a option" where
  "getAt xs i = (if 0 \<le> i \<and> i < int (length xs) then Some (xs ! nat i) else None)"

subsection \<open>attentionHead\<close>

text \<open>
  The inner loop over \<open>j\<close> that fills \<open>rowScores\<close> for position \<open>i\<close>, before \<open>softmax\<close>.
  \<open>Q\<close> and \<open>K\<close> have \<open>seqLen\<close> rows, so \<open>Q[i]\<close> and \<open>K[j]\<close> exist.
\<close>

definition rowScores :: "nat \<Rightarrow> matrix \<Rightarrow> matrix \<Rightarrow> jsnum \<Rightarrow> nat \<Rightarrow> vec" where
  "rowScores seqLen Q K scale i =
     map (\<lambda>j. if j > i then Number (- 1000000000)
               else ndiv (dotProduct (Q ! i) (K ! j)) scale) [0..<seqLen]"

text \<open>
  \<open>weighted = V[0].map(() => 0)\<close>, then for every \<open>j\<close> and every \<open>k < V[0].length\<close>:
  \<open>weighted[k] += scores[i][j] * V[j][k]\<close>.
\<close>

definition weightedSum :: "nat \<Rightarrow> matrix \<Rightarrow> vec \<Rightarrow> vec" where
  "weightedSum seqLen V scoreRow =
     foldl (\<lambda>weighted j.
              map (\<lambda>k. nadd (weighted ! k) (nmul (getN scoreRow j) (getN (V ! j) k)))
                [0..<length (V ! 0)])
       (map (\<lambda>_. Number 0) (V ! 0)) [0..<seqLen]"

text \<open>\<open>input.map((x) => matVecMul(M, x))\<close>: the rows \<open>Q\<close>, \<open>K\<close> or \<open>V\<close> of a head.\<close>

definition project :: "matrix \<Rightarrow> matrix \<Rightarrow> matrix" where
  "project M input = map (\<lambda>x. matVecMul M x) input"

text \<open>
  The first half of \<open>attentionHead\<close>: the array \<open>rowScores\<close> of every position \<open>i\<close>, as it
  is when handed to \<open>softmax\<close>. \<open>Q[0].length\<close> throws on an empty sequence.
\<close>

definition rawScores :: "matrix \<Rightarrow> AttentionHead \<Rightarrow> error + matrix" where
  "rawScores input head =
     (let seqLen = length input;
          Q = project (Wq head) input;
          K = project (Wk head) input
      in case Q of
           [] \<Rightarrow> Inl TypeError
         | q0 # _ \<Rightarrow>
             (let dk = length q0;
                  scale = nsqrt (Number (real dk))
              in Inr (map (\<lambda>i. rowScores seqLen Q K scale i) [0..<seqLen])))"

text \<open>Returns \<open>(scores, output)\<close>.\<close>

definition attentionHead :: "matrix \<Rightarrow> AttentionHead \<Rightarrow> error + (matrix \<times> matrix)" where
  "attentionHead input head =
     (let seqLen = length input;
          V = project (Wv head) input
      in case rawScores input head of
           Inl e \<Rightarrow> Inl e
         | Inr rows \<Rightarrow>
             (let scores = map softmax rows;
                  outp = map (\<lambda>i. weightedSum seqLen V (scores ! i)) [0..<seqLen]
              in Inr (scores, outp)))"

subsection \<open>feedForward\<close>

definition feedForward :: "vec \<Rightarrow> FFN \<Rightarrow> vec" where
  "feedForward input f =
     (let hidden = relu (vecAdd (matVecMul (W1 f) input) (b1 f))
      in vecAdd (matVecMul (W2 f) hidden) (b2 f))"

subsection \<open>forward\<close>

text \<open>\<open>inputTokens.map((t) => [...weights.embeddings[t]])\<close>: spreading \<open>undefined\<close> throws.\<close>

fun lookupAll :: "matrix \<Rightarrow> int list \<Rightarrow> error + matrix" where
  "lookupAll E [] = Inr []"
| "lookupAll E (t # ts) =
     (case getAt E t of
        None \<Rightarrow> Inl TypeError
      | Some row \<Rightarrow>
          (case lookupAll E ts of Inl e \<Rightarrow> Inl e | Inr rows \<Rightarrow> Inr (row # rows)))"

text \<open>The loop over the heads of a layer: \<open>(allScores, headOutputs)\<close>.\<close>

fun runHeads :: "matrix \<Rightarrow> AttentionHead list \<Rightarrow> error + (matrix list \<times> matrix list)" where
  "runHeads current [] = Inr ([], [])"
| "runHeads current (h # hs) =
     (case attentionHead current h of
        Inl e \<Rightarrow> Inl e
      | Inr (scores, outp) \<Rightarrow>
          (case runHeads current hs of
             Inl e \<Rightarrow> Inl e
           | Inr (allScores, headOutputs) \<Rightarrow> Inr (scores # allScores, outp # headOutputs)))"

text \<open>
  \<open>headOut[i][d % headOut[i].length]\<close>: for an empty row the index is \<open>d % 0 = NaN\<close> and the
  read is \<open>undefined\<close>.
\<close>

definition wrapGet :: "vec \<Rightarrow> nat \<Rightarrow> jsnum" where
  "wrapGet row d = (if length row = 0 then NaN else row ! (d mod length row))"

text \<open>
  The body of \<open>current.map((_, i) => ...)\<close>: \<open>combined = current[0].map(() => 0)\<close>, then for
  every head output and every \<open>d\<close>:
  \<open>combined[d] += headOut[i][d % headOut[i].length] / headOutputs.length\<close>.
\<close>

definition combineHeads :: "matrix \<Rightarrow> matrix list \<Rightarrow> nat \<Rightarrow> vec" where
  "combineHeads current headOutputs i =
     foldl (\<lambda>combined headOut.
              map (\<lambda>d. nadd (combined ! d)
                         (ndiv (wrapGet (headOut ! i) d) (Number (real (length headOutputs)))))
                [0..<length combined])
       (map (\<lambda>_. Number 0) (current ! 0)) headOutputs"

text \<open>One iteration of the loop over the layers: the new \<open>current\<close> and the pushed record.\<close>

definition layerStep :: "matrix \<Rightarrow> TransformerLayer \<Rightarrow> error + (matrix \<times> LayerOutput)" where
  "layerStep current layer =
     (case runHeads current (heads (attention layer)) of
        Inl e \<Rightarrow> Inl e
      | Inr (allScores, headOutputs) \<Rightarrow>
          (let attentionOutput = map (\<lambda>i. combineHeads current headOutputs i) [0..<length current];
               afterAttention =
                 map (\<lambda>i. layerNorm (vecAdd (current ! i) (attentionOutput ! i))) [0..<length current];
               ffnOutput = map (\<lambda>x. feedForward x (ffn layer)) afterAttention;
               current' =
                 map (\<lambda>i. layerNorm (vecAdd (afterAttention ! i) (ffnOutput ! i)))
                   [0..<length afterAttention]
           in Inr (current',
                   \<lparr>attentionScores = allScores, attentionOutput = attentionOutput,
                    ffnOutput = ffnOutput\<rparr>)))"

fun runLayers :: "matrix \<Rightarrow> TransformerLayer list \<Rightarrow> error + (matrix \<times> LayerOutput list)" where
  "runLayers current [] = Inr (current, [])"
| "runLayers current (layer # rest) =
     (case layerStep current layer of
        Inl e \<Rightarrow> Inl e
      | Inr (current', lo) \<Rightarrow>
          (case runLayers current' rest of
             Inl e \<Rightarrow> Inl e
           | Inr (final, los) \<Rightarrow> Inr (final, lo # los)))"

text \<open>
  \<open>matVecMul(weights.output.W, lastHidden)\<close> where \<open>lastHidden\<close> may be \<open>undefined\<close>
  (\<open>current[-1]\<close> on an empty sequence): \<open>dotProduct\<close> then reads \<open>b[i]\<close> of \<open>undefined\<close> and
  throws, unless no row has an element and the callback never runs.
\<close>

definition matVecMulU :: "matrix \<Rightarrow> vec option \<Rightarrow> error + vec" where
  "matVecMulU m v =
     (case v of
        Some x \<Rightarrow> Inr (matVecMul m x)
      | None \<Rightarrow> if list_all (\<lambda>row. row = []) m then Inr (map (\<lambda>_. Number 0) m)
                else Inl TypeError)"

text \<open>
  The loop that finds the predicted token: \<open>maxProb\<close>, \<open>predictedToken\<close>, the index \<open>i\<close>
  and the probabilities from \<open>i\<close> on.
\<close>

fun findMax :: "jsnum \<Rightarrow> nat \<Rightarrow> nat \<Rightarrow> vec \<Rightarrow> nat" where
  "findMax maxProb predicted i [] = predicted"
| "findMax maxProb predicted i (p # ps) =
     (if ngt p maxProb then findMax p i (Suc i) ps
      else findMax maxProb predicted (Suc i) ps)"

definition forward :: "int list \<Rightarrow> Weights \<Rightarrow> int option \<Rightarrow> error + ForwardResult" where
  "forward toks weights target =
     (let seqLen = length toks
      in case lookupAll (embeddings weights) toks of
           Inl e \<Rightarrow> Inl e
         | Inr current0 \<Rightarrow>
             (case runLayers current0 (layers weights) of
                Inl e \<Rightarrow> Inl e
              | Inr (current, los) \<Rightarrow>
                  (let lastHidden = getAt current (int seqLen - 1)
                   in case matVecMulU (W (outputLayer weights)) lastHidden of
                        Inl e \<Rightarrow> Inl e
                      | Inr projected \<Rightarrow>
                          (let lgts = vecAdd projected (b (outputLayer weights));
                               probs = softmax lgts
                           in Inr \<lparr>inputTokens = toks,
                                   embeddingsSnapshot = current0,
                                   layerOutputs = los,
                                   logits = lgts,
                                   probabilities = probs,
                                   predictedToken = findMax (Number (- 1)) 0 0 probs,
                                   loss = map_option (crossEntropyLoss probs) target,
                                   targetToken = target\<rparr>))))"

subsection \<open>trainStep\<close>

text \<open>
  \<open>Math.random()\<close> is the only effect of the engine. The state is the sequence of values
  it will return from now on, each in \<open>[0, 1)\<close>; a call takes the first and leaves the rest.
\<close>

type_synonym rng = "nat \<Rightarrow> real"

definition random :: "rng \<Rightarrow> real \<times> rng" where
  "random g = (g 0, \<lambda>n. g (Suc n))"

text \<open>
  \<open>xs[i] += delta\<close>. Past the end the read is \<open>undefined\<close>, the sum \<open>NaN\<close>, and the write
  extends the array (a hole it would leave reads as \<open>undefined\<close>; the loops below write
  the indices in order and leave none).
\<close>

definition bumpAt :: "vec \<Rightarrow> nat \<Rightarrow> jsnum \<Rightarrow> vec" where
  "bumpAt xs i delta =
     (if i < length xs then xs[i := nadd (xs ! i) delta]
      else xs @ replicate (i - length xs) NaN @ [nadd NaN delta])"

text \<open>
  The loop over \<open>d\<close>: \<open>newWeights.output.W[d][v] += learningRate * error * lastHidden[d]\<close>.
  Where \<open>W\<close> has no row \<open>d\<close>, the read of \<open>W[d][v]\<close> throws.
\<close>

fun updateColumn :: "nat \<Rightarrow> jsnum \<Rightarrow> jsnum \<Rightarrow> vec \<Rightarrow> nat list \<Rightarrow> matrix \<Rightarrow> error + matrix" where
  "updateColumn v lr err lastHidden [] Wm = Inr Wm"
| "updateColumn v lr err lastHidden (d # ds) Wm =
     (if d < length Wm
      then updateColumn v lr err lastHidden ds
             (Wm[d := bumpAt (Wm ! d) v (nmul (nmul lr err) (lastHidden ! d))])
      else Inl TypeError)"

text \<open>
  The loop over \<open>v\<close>. \<open>lastHidden\<close> is \<open>None\<close> when it is \<open>undefined\<close>; then
  \<open>lastHidden.length\<close> throws in the first iteration.
\<close>

fun updateOutput ::
  "int \<Rightarrow> jsnum \<Rightarrow> vec \<Rightarrow> vec option \<Rightarrow> nat list \<Rightarrow> OutputLayer \<Rightarrow> error + OutputLayer" where
  "updateOutput target lr probs lastHidden [] out = Inr out"
| "updateOutput target lr probs lastHidden (v # vs) out =
     (let err = nsub (Number (if int v = target then 1 else 0)) (probs ! v)
      in case lastHidden of
           None \<Rightarrow> Inl TypeError
         | Some h \<Rightarrow>
             (case updateColumn v lr err h [0..<length h] (W out) of
                Inl e \<Rightarrow> Inl e
              | Inr Wm \<Rightarrow>
                  updateOutput target lr probs lastHidden vs
                    (out\<lparr>W := Wm, b := bumpAt (b out) v (nmul lr err)\<rparr>)))"

text \<open>
  The loop over the coordinates of one embedding row:
  \<open>adjustment = learningRate * (Math.random() - 0.5) * 0.1\<close>.
\<close>

fun perturbRow :: "jsnum \<Rightarrow> vec \<Rightarrow> rng \<Rightarrow> vec \<times> rng" where
  "perturbRow lr [] g = ([], g)"
| "perturbRow lr (x # xs) g =
     (let (u, g1) = random g;
          adjustment = nmul (nmul lr (nsub (Number u) (Number (1 / 2)))) (Number (1 / 10));
          (xs', g2) = perturbRow lr xs g1
      in (nadd x adjustment # xs', g2))"

text \<open>\<open>for (const tokenId of inputTokens)\<close>: one pass over the row per element of the sequence.\<close>

fun perturbTokens :: "jsnum \<Rightarrow> int list \<Rightarrow> matrix \<Rightarrow> rng \<Rightarrow> error + (matrix \<times> rng)" where
  "perturbTokens lr [] E g = Inr (E, g)"
| "perturbTokens lr (t # ts) E g =
     (case getAt E t of
        None \<Rightarrow> Inl TypeError
      | Some row \<Rightarrow>
          (let (row', g') = perturbRow lr row g
           in perturbTokens lr ts (E[nat t := row']) g'))"

text \<open>
  The result of \<open>trainStep\<close>; \<open>stepLoss\<close> is its field \<open>loss\<close> (\<open>result.loss!\<close>, passed on as
  it is).
\<close>

record TrainResult =
  newWeights :: Weights
  stepLoss :: "jsnum option"
  result :: ForwardResult

text \<open>
  In this model of values the deep copy that builds \<open>newWeights\<close> is the identity; the two
  update loops then work on the copy. A throw anywhere loses the partial copy, which is
  local to the call.
\<close>

definition trainStep ::
  "int list \<Rightarrow> int \<Rightarrow> Weights \<Rightarrow> jsnum \<Rightarrow> rng \<Rightarrow> error + (TrainResult \<times> rng)" where
  "trainStep toks target weights lr g =
     (case forward toks weights (Some target) of
        Inl e \<Rightarrow> Inl e
      | Inr res \<Rightarrow>
          (let probs = probabilities res;
               lastLayerIdx = int (length (layerOutputs res)) - 1
           in case getAt (layerOutputs res) lastLayerIdx of
                None \<Rightarrow> Inl TypeError
              | Some lo \<Rightarrow>
                  (let lastHidden = getAt (ffnOutput lo) (int (length toks) - 1)
                   in case updateOutput target lr probs lastHidden [0..<length probs]
                             (outputLayer weights) of
                        Inl e \<Rightarrow> Inl e
                      | Inr out \<Rightarrow>
                          (case perturbTokens lr toks (embeddings weights) g of
                             Inl e \<Rightarrow> Inl e
                           | Inr (E, g') \<Rightarrow>
                               Inr (\<lparr>newWeights = weights\<lparr>embeddings := E, outputLayer := out\<rparr>,
                                     stepLoss = loss res,
                                     result = res\<rparr>, g')))))"

text \<open>
  The calls of \<open>Math.random\<close> in the embedding loop, counted from the first one. The loop
  makes one call for every coordinate of the row of \<open>inputTokens[p]\<close>, for \<open>p = 0, 1, ...\<close>
  in order; \<open>drawIndex E toks p d\<close> is the number of the call made for coordinate \<open>d\<close> in
  the pass for position \<open>p\<close> (the rows keep their lengths, so the lengths in \<open>E\<close>, the
  embeddings before the loop, are those at every pass). \<open>occurrences toks i\<close> are the
  positions of \<open>inputTokens\<close> that hold the token \<open>i\<close>, in order.
\<close>

definition drawIndex :: "matrix \<Rightarrow> int list \<Rightarrow> nat \<Rightarrow> nat \<Rightarrow> nat" where
  "drawIndex E toks p d = (\<Sum>t\<leftarrow>take p toks. length (E ! nat t)) + d"

definition occurrences :: "int list \<Rightarrow> nat \<Rightarrow> nat list" where
  "occurrences toks i = filter (\<lambda>p. toks ! p = int i) [0..<length toks]"

section \<open>Concrete weights\<close>

text \<open>
  Weights with the shapes \<open>initializeWeights(3, {embedDim: 2, numLayers: 1, numHeads: 1})\<close>
  builds: \<open>embeddings\<close> 3 by 2, \<open>Wq\<close>, \<open>Wk\<close>, \<open>Wv\<close> 2 by 2, \<open>W1\<close> 2 by 4, \<open>b1\<close> 4,
  \<open>W2\<close> 4 by 2, \<open>b2\<close> 2, \<open>output.W\<close> 2 by 3, \<open>output.b\<close> 3 (rows by columns, as
  \<open>randomMatrix(rows, cols)\<close> nests them).
\<close>

definition specWeights :: Weights where
  "specWeights =
     \<lparr>embeddings =
        [[Number (1 / 2), Number (1 / 4)], [Number (1 / 4), Number (1 / 2)],
         [Number (1 / 2), Number (1 / 2)]],
      layers =
        [\<lparr>attention =
            \<lparr>heads =
               [\<lparr>Wq = [[Number (1 / 10), Number (1 / 10)], [Number (1 / 10), Number (1 / 10)]],
                 Wk = [[Number (1 / 10), Number (1 / 10)], [Number (1 / 10), Number (1 / 10)]],
                 Wv = [[Number (1 / 10), Number (1 / 10)], [Number (1 / 10), Number (1 / 10)]]\<rparr>]\<rparr>,
          ffn =
            \<lparr>W1 = [[Number (1 / 10), Number (1 / 10), Number (1 / 10), Number (1 / 10)],
                   [Number (1 / 10), Number (1 / 10), Number (1 / 10), Number (1 / 10)]],
             b1 = [Number 0, Number 0, Number 0, Number 0],
             W2 = [[Number (1 / 10), Number (1 / 10)], [Number (1 / 10), Number (1 / 10)],
                   [Number (1 / 10), Number (1 / 10)], [Number (1 / 10), Number (1 / 10)]],
             b2 = [Number 0, Number 0]\<rparr>\<rparr>],
      outputLayer =
        \<lparr>W = [[Number (1 / 10), Number (1 / 10), Number (1 / 10)],
               [Number (1 / 10), Number (1 / 10), Number (1 / 10)]],
         b = [Number 0, Number 0, Number 0]\<rparr>\<rparr>"

text \<open>
  A layer with the shapes of \<open>initializeWeights(1, {embedDim: 1, numLayers: 2, numHeads: 1})\<close>,
  and the weights with two such layers.
\<close>

definition narrowLayer :: TransformerLayer where
  "narrowLayer =
     \<lparr>attention =
        \<lparr>heads = [\<lparr>Wq = [[Number (1 / 10)]], Wk = [[Number (1 / 10)]], Wv = [[Number (1 / 10)]]\<rparr>]\<rparr>,
      ffn =
        \<lparr>W1 = [[Number (1 / 10), Number (1 / 10)]], b1 = [Number 0, Number 0],
         W2 = [[Number (1 / 10)], [Number (1 / 10)]], b2 = [Number 0]\<rparr>\<rparr>"

definition twoLayerWeights :: Weights where
  "twoLayerWeights =
     \<lparr>embeddings = [[Number (1 / 2)]], layers = [narrowLayer, narrowLayer],
      outputLayer = \<lparr>W = [[Number (1 / 10)]], b = [Number 0]\<rparr>\<rparr>"

text \<open>
  Two heads with the shapes of \<open>embedDim = 2\<close>, \<open>numHeads = 2\<close>, so \<open>headDim = 1\<close>: each of
  \<open>Wq\<close>, \<open>Wk\<close>, \<open>Wv\<close> is 2 by 1. \<open>twoHeadLayer\<close> is a layer of the two.
\<close>

definition headA :: AttentionHead where
  "headA = \<lparr>Wq = [[Number 1], [Number 1]], Wk = [[Number 1], [Number 1]],
            Wv = [[Number 1], [Number 2]]\<rparr>"

definition headB :: AttentionHead where
  "headB = \<lparr>Wq = [[Number 1], [Number 1]], Wk = [[Number 1], [Number 1]],
            Wv = [[Number 3], [Number 4]]\<rparr>"

definition twoHeadLayer :: TransformerLayer where
  "twoHeadLayer =
     \<lparr>attention = \<lparr>heads = [headA, headB]\<rparr>,
      ffn =
        \<lparr>W1 = [[Number 0, Number 0, Number 0, Number 0], [Number 0, Number 0, Number 0, Number 0]],
         b1 = [Number 0, Number 0, Number 0, Number 0],
         W2 = [[Number 0, Number 0], [Number 0, Number 0], [Number 0, Number 0],
               [Number 0, Number 0]],
         b2 = [Number 0, Number 0]\<rparr>\<rparr>"

text \<open>
  Weights on which every matrix is 2 by 2 and every vector has 2 elements (vocabulary size
  and hidden width 2, one layer, one head), so that \<open>trainStep\<close> returns.
\<close>

definition squareWeights :: Weights where
  "squareWeights =
     \<lparr>embeddings = [[Number 1, Number 1], [Number 1, Number 1]],
      layers =
        [\<lparr>attention =
            \<lparr>heads =
               [\<lparr>Wq = [[Number 0, Number 0], [Number 0, Number 0]],
                 Wk = [[Number 0, Number 0], [Number 0, Number 0]],
                 Wv = [[Number 0, Number 0], [Number 0, Number 0]]\<rparr>]\<rparr>,
          ffn =
            \<lparr>W1 = [[Number 0, Number 0], [Number 0, Number 0]], b1 = [Number 0, Number 0],
             W2 = [[Number 0, Number 0], [Number 0, Number 0]], b2 = [Number 1, Number 1]\<rparr>\<rparr>],
      outputLayer = \<lparr>W = [[Number 1, Number 2], [Number 3, Number 4]], b = [Number 0, Number 0]\<rparr>\<rparr>"

text \<open>Weights without layers (\<open>numLayers = 0\<close>), vocabulary size and \<open>embedDim\<close> 2.\<close>

definition zeroLayerWeights :: Weights where
  "zeroLayerWeights =
     \<lparr>embeddings = [[Number 1, Number 2], [Number 3, Number 4]], layers = [],
      outputLayer = \<lparr>W = [[Number 1, Number 0], [Number 0, Number 1]], b = [Number 0, Number 0]\<rparr>\<rparr>"

text \<open>A source of random numbers that returns the same value at every call.\<close>

definition constRng :: "real \<Rightarrow> rng" where
  "constRng u = (\<lambda>_. u)"

section \<open>The store: arrays by reference\<close>

text \<open>
  In the definitions above an array is its list of values, which says nothing about two
  arrays sharing storage. Here an array is an address into a store, and the part of
  \<open>trainStep\<close> that builds and updates \<open>newWeights\<close> is written against the store. An
  element of an array is a number, a reference to an array, or an object of the weight
  tree, given by the references to the arrays in its fields: a head
  \<open>{Wq, Wk, Wv}\<close> or a layer \<open>{attention: {heads}, ffn: {W1, b1, W2, b2}}\<close>.
\<close>

type_synonym addr = nat

datatype cell =
    CNum jsnum
  | CArr addr
  | CHead addr addr addr
  | CLayer addr addr addr addr addr

text \<open>Addresses are handed out in order; \<open>fresh\<close> is the next one.\<close>

record store =
  arrays :: "addr \<Rightarrow> cell list option"
  fresh :: addr

definition wfStore :: "store \<Rightarrow> bool" where
  "wfStore s \<longleftrightarrow> (\<forall>a. fresh s \<le> a \<longrightarrow> arrays s a = None)"

definition alloc :: "store \<Rightarrow> cell list \<Rightarrow> store \<times> addr" where
  "alloc s cs = (s\<lparr>arrays := (arrays s)(fresh s \<mapsto> cs), fresh := Suc (fresh s)\<rparr>, fresh s)"

text \<open>
  The references of a \<open>Weights\<close> object: \<open>embeddings\<close>, \<open>layers\<close>, \<open>output.W\<close>, \<open>output.b\<close>.
\<close>

record WeightsRef =
  embeddingsRef :: addr
  layersRef :: addr
  outputWRef :: addr
  outputbRef :: addr

subsection \<open>The values a store holds\<close>

text \<open>
  Reading a value of the TypeScript type out of the store; \<open>None\<close> where the store holds
  no such value at the reference (a dangling address, an element of the wrong kind).
\<close>

definition cellNum :: "cell \<Rightarrow> jsnum option" where
  "cellNum c = (case c of CNum x \<Rightarrow> Some x | _ \<Rightarrow> None)"

definition readVec :: "store \<Rightarrow> addr \<Rightarrow> vec option" where
  "readVec s a = (case arrays s a of None \<Rightarrow> None | Some cs \<Rightarrow> those (map cellNum cs))"

definition readArray :: "(store \<Rightarrow> cell \<Rightarrow> 'v option) \<Rightarrow> store \<Rightarrow> addr \<Rightarrow> 'v list option" where
  "readArray f s a = (case arrays s a of None \<Rightarrow> None | Some cs \<Rightarrow> those (map (f s) cs))"

definition readRow :: "store \<Rightarrow> cell \<Rightarrow> vec option" where
  "readRow s c = (case c of CArr r \<Rightarrow> readVec s r | _ \<Rightarrow> None)"

definition readMatrix :: "store \<Rightarrow> addr \<Rightarrow> matrix option" where
  "readMatrix = readArray readRow"

definition readHead :: "store \<Rightarrow> cell \<Rightarrow> AttentionHead option" where
  "readHead s c =
     (case c of
        CHead q k v \<Rightarrow>
          (case readMatrix s q of None \<Rightarrow> None | Some mq \<Rightarrow>
          (case readMatrix s k of None \<Rightarrow> None | Some mk \<Rightarrow>
          (case readMatrix s v of None \<Rightarrow> None | Some mv \<Rightarrow>
             Some \<lparr>Wq = mq, Wk = mk, Wv = mv\<rparr>)))
      | _ \<Rightarrow> None)"

definition readHeads :: "store \<Rightarrow> addr \<Rightarrow> AttentionHead list option" where
  "readHeads = readArray readHead"

definition readLayer :: "store \<Rightarrow> cell \<Rightarrow> TransformerLayer option" where
  "readLayer s c =
     (case c of
        CLayer hs w1 v1 w2 v2 \<Rightarrow>
          (case readHeads s hs of None \<Rightarrow> None | Some mh \<Rightarrow>
          (case readMatrix s w1 of None \<Rightarrow> None | Some m1 \<Rightarrow>
          (case readVec s v1 of None \<Rightarrow> None | Some x1 \<Rightarrow>
          (case readMatrix s w2 of None \<Rightarrow> None | Some m2 \<Rightarrow>
          (case readVec s v2 of None \<Rightarrow> None | Some x2 \<Rightarrow>
             Some \<lparr>attention = \<lparr>heads = mh\<rparr>,
                   ffn = \<lparr>W1 = m1, b1 = x1, W2 = m2, b2 = x2\<rparr>\<rparr>)))))
      | _ \<Rightarrow> None)"

definition readLayers :: "store \<Rightarrow> addr \<Rightarrow> TransformerLayer list option" where
  "readLayers = readArray readLayer"

definition readWeights :: "store \<Rightarrow> WeightsRef \<Rightarrow> Weights option" where
  "readWeights s r =
     (case readMatrix s (embeddingsRef r) of None \<Rightarrow> None | Some me \<Rightarrow>
     (case readLayers s (layersRef r) of None \<Rightarrow> None | Some ls \<Rightarrow>
     (case readMatrix s (outputWRef r) of None \<Rightarrow> None | Some mw \<Rightarrow>
     (case readVec s (outputbRef r) of None \<Rightarrow> None | Some xb \<Rightarrow>
        Some \<lparr>embeddings = me, layers = ls, outputLayer = \<lparr>W = mw, b = xb\<rparr>\<rparr>))))"

subsection \<open>The arrays a value occupies\<close>

text \<open>The addresses of all arrays reachable from a reference, at any depth.\<close>

definition fpVec :: "store \<Rightarrow> addr \<Rightarrow> addr set" where
  "fpVec s a = {a}"

definition fpArray :: "(store \<Rightarrow> cell \<Rightarrow> addr set) \<Rightarrow> store \<Rightarrow> addr \<Rightarrow> addr set" where
  "fpArray f s a =
     insert a (case arrays s a of None \<Rightarrow> {} | Some cs \<Rightarrow> \<Union> (set (map (f s) cs)))"

definition fpRow :: "store \<Rightarrow> cell \<Rightarrow> addr set" where
  "fpRow s c = (case c of CArr r \<Rightarrow> fpVec s r | _ \<Rightarrow> {})"

definition fpMatrix :: "store \<Rightarrow> addr \<Rightarrow> addr set" where
  "fpMatrix = fpArray fpRow"

definition fpHead :: "store \<Rightarrow> cell \<Rightarrow> addr set" where
  "fpHead s c =
     (case c of CHead q k v \<Rightarrow> fpMatrix s q \<union> fpMatrix s k \<union> fpMatrix s v | _ \<Rightarrow> {})"

definition fpHeads :: "store \<Rightarrow> addr \<Rightarrow> addr set" where
  "fpHeads = fpArray fpHead"

definition fpLayer :: "store \<Rightarrow> cell \<Rightarrow> addr set" where
  "fpLayer s c =
     (case c of
        CLayer hs w1 v1 w2 v2 \<Rightarrow>
          fpHeads s hs \<union> fpMatrix s w1 \<union> fpVec s v1 \<union> fpMatrix s w2 \<union> fpVec s v2
      | _ \<Rightarrow> {})"

definition fpLayers :: "store \<Rightarrow> addr \<Rightarrow> addr set" where
  "fpLayers = fpArray fpLayer"

definition fpWeights :: "store \<Rightarrow> WeightsRef \<Rightarrow> addr set" where
  "fpWeights s r =
     fpMatrix s (embeddingsRef r) \<union> fpLayers s (layersRef r) \<union> fpMatrix s (outputWRef r) \<union>
     fpVec s (outputbRef r)"

subsection \<open>The copy that builds \<open>newWeights\<close>\<close>

text \<open>
  \<open>[...r]\<close>: a new array with the elements of \<open>r\<close>. The copy functions return \<open>None\<close>
  where the store holds no array, or an element of the wrong kind, at a reference they
  follow; the types of the program exclude that.
\<close>

definition spread :: "store \<Rightarrow> addr \<Rightarrow> (store \<times> addr) option" where
  "spread s a = (case arrays s a of None \<Rightarrow> None | Some cs \<Rightarrow> Some (alloc s cs))"

text \<open>
  \<open>xs.map(f)\<close> for a callback \<open>f\<close> that allocates: the callback runs on the elements from
  left to right, and the results are the elements of a new array.
\<close>

fun copyElems ::
  "(store \<Rightarrow> cell \<Rightarrow> (store \<times> cell) option) \<Rightarrow> store \<Rightarrow> cell list \<Rightarrow> (store \<times> cell list) option" where
  "copyElems f s [] = Some (s, [])"
| "copyElems f s (c # cs) =
     (case f s c of
        None \<Rightarrow> None
      | Some (s1, c') \<Rightarrow>
          (case copyElems f s1 cs of
             None \<Rightarrow> None
           | Some (s2, cs') \<Rightarrow> Some (s2, c' # cs')))"

definition mapArray ::
  "(store \<Rightarrow> cell \<Rightarrow> (store \<times> cell) option) \<Rightarrow> store \<Rightarrow> addr \<Rightarrow> (store \<times> addr) option" where
  "mapArray f s a =
     (case arrays s a of
        None \<Rightarrow> None
      | Some cs \<Rightarrow>
          (case copyElems f s cs of
             None \<Rightarrow> None
           | Some (s1, cs') \<Rightarrow> Some (alloc s1 cs')))"

text \<open>\<open>(r) => [...r]\<close>\<close>

definition copyRow :: "store \<Rightarrow> cell \<Rightarrow> (store \<times> cell) option" where
  "copyRow s c =
     (case c of
        CArr r \<Rightarrow> (case spread s r of None \<Rightarrow> None | Some (s1, r') \<Rightarrow> Some (s1, CArr r'))
      | _ \<Rightarrow> None)"

text \<open>\<open>m.map((r) => [...r])\<close>\<close>

definition copyMatrix :: "store \<Rightarrow> addr \<Rightarrow> (store \<times> addr) option" where
  "copyMatrix = mapArray copyRow"

text \<open>\<open>(head) => ({Wq: head.Wq.map(...), Wk: head.Wk.map(...), Wv: head.Wv.map(...)})\<close>\<close>

definition copyHead :: "store \<Rightarrow> cell \<Rightarrow> (store \<times> cell) option" where
  "copyHead s c =
     (case c of
        CHead q k v \<Rightarrow>
          (case copyMatrix s q of None \<Rightarrow> None | Some (s1, q') \<Rightarrow>
          (case copyMatrix s1 k of None \<Rightarrow> None | Some (s2, k') \<Rightarrow>
          (case copyMatrix s2 v of None \<Rightarrow> None | Some (s3, v') \<Rightarrow>
             Some (s3, CHead q' k' v'))))
      | _ \<Rightarrow> None)"

definition copyHeads :: "store \<Rightarrow> addr \<Rightarrow> (store \<times> addr) option" where
  "copyHeads = mapArray copyHead"

text \<open>The callback of \<open>weights.layers.map\<close>: \<open>heads\<close>, \<open>W1\<close>, \<open>b1\<close>, \<open>W2\<close>, \<open>b2\<close> in this order.\<close>

definition copyLayer :: "store \<Rightarrow> cell \<Rightarrow> (store \<times> cell) option" where
  "copyLayer s c =
     (case c of
        CLayer hs w1 v1 w2 v2 \<Rightarrow>
          (case copyHeads s hs of None \<Rightarrow> None | Some (s1, hs') \<Rightarrow>
          (case copyMatrix s1 w1 of None \<Rightarrow> None | Some (s2, w1') \<Rightarrow>
          (case spread s2 v1 of None \<Rightarrow> None | Some (s3, v1') \<Rightarrow>
          (case copyMatrix s3 w2 of None \<Rightarrow> None | Some (s4, w2') \<Rightarrow>
          (case spread s4 v2 of None \<Rightarrow> None | Some (s5, v2') \<Rightarrow>
             Some (s5, CLayer hs' w1' v1' w2' v2'))))))
      | _ \<Rightarrow> None)"

definition copyLayers :: "store \<Rightarrow> addr \<Rightarrow> (store \<times> addr) option" where
  "copyLayers = mapArray copyLayer"

text \<open>The object literal of \<open>newWeights\<close>: \<open>embeddings\<close>, \<open>layers\<close>, \<open>output.W\<close>, \<open>output.b\<close>.\<close>

definition copyWeights :: "store \<Rightarrow> WeightsRef \<Rightarrow> (store \<times> WeightsRef) option" where
  "copyWeights s r =
     (case copyMatrix s (embeddingsRef r) of None \<Rightarrow> None | Some (s1, e') \<Rightarrow>
     (case copyLayers s1 (layersRef r) of None \<Rightarrow> None | Some (s2, l') \<Rightarrow>
     (case copyMatrix s2 (outputWRef r) of None \<Rightarrow> None | Some (s3, w') \<Rightarrow>
     (case spread s3 (outputbRef r) of None \<Rightarrow> None | Some (s4, b') \<Rightarrow>
        Some (s4, \<lparr>embeddingsRef = e', layersRef = l', outputWRef = w', outputbRef = b'\<rparr>)))))"

subsection \<open>The updates of \<open>newWeights\<close>\<close>

text \<open>
  A call either returns, throws (\<open>Thrown\<close>), or finds that the store does not hold the
  value its types promise (\<open>IllTyped\<close>), which the type checker excludes.
\<close>

datatype fault = Thrown error | IllTyped

text \<open>\<open>xs[i] += delta\<close> on the array of numbers at \<open>a\<close>.\<close>

definition bumpArray :: "store \<Rightarrow> addr \<Rightarrow> nat \<Rightarrow> jsnum \<Rightarrow> fault + store" where
  "bumpArray s a i delta =
     (case readVec s a of
        None \<Rightarrow> Inl IllTyped
      | Some xs \<Rightarrow> Inr (s\<lparr>arrays := (arrays s)(a \<mapsto> map CNum (bumpAt xs i delta))\<rparr>))"

text \<open>
  \<open>m[d][v] += delta\<close> on the matrix at \<open>m\<close>: \<open>m[d]\<close> is \<open>undefined\<close> past the last row,
  and the read of its element throws.
\<close>

definition bumpEntry :: "store \<Rightarrow> addr \<Rightarrow> nat \<Rightarrow> nat \<Rightarrow> jsnum \<Rightarrow> fault + store" where
  "bumpEntry s m d v delta =
     (case arrays s m of
        None \<Rightarrow> Inl IllTyped
      | Some cs \<Rightarrow>
          if d < length cs
          then (case cs ! d of CArr r \<Rightarrow> bumpArray s r v delta | _ \<Rightarrow> Inl IllTyped)
          else Inl (Thrown TypeError))"

text \<open>
  The loops below return the outcome together with the store as the loop leaves it: when an
  iteration throws, the updates of the iterations before it have been made.
\<close>

text \<open>The loop over \<open>d\<close> of the output-layer update, on the store.\<close>

fun updateColumnS ::
  "nat \<Rightarrow> jsnum \<Rightarrow> jsnum \<Rightarrow> vec \<Rightarrow> nat list \<Rightarrow> addr \<Rightarrow> store \<Rightarrow> (fault + unit) \<times> store" where
  "updateColumnS v lr err lastHidden [] m s = (Inr (), s)"
| "updateColumnS v lr err lastHidden (d # ds) m s =
     (case bumpEntry s m d v (nmul (nmul lr err) (lastHidden ! d)) of
        Inl e \<Rightarrow> (Inl e, s)
      | Inr s1 \<Rightarrow> updateColumnS v lr err lastHidden ds m s1)"

text \<open>The loop over \<open>v\<close>, on the store.\<close>

fun updateOutputS ::
  "int \<Rightarrow> jsnum \<Rightarrow> vec \<Rightarrow> vec option \<Rightarrow> nat list \<Rightarrow> WeightsRef \<Rightarrow> store \<Rightarrow>
   (fault + unit) \<times> store" where
  "updateOutputS target lr probs lastHidden [] nw s = (Inr (), s)"
| "updateOutputS target lr probs lastHidden (v # vs) nw s =
     (let err = nsub (Number (if int v = target then 1 else 0)) (probs ! v)
      in case lastHidden of
           None \<Rightarrow> (Inl (Thrown TypeError), s)
         | Some h \<Rightarrow>
             (case updateColumnS v lr err h [0..<length h] (outputWRef nw) s of
                (Inl e, s1) \<Rightarrow> (Inl e, s1)
              | (Inr _, s1) \<Rightarrow>
                  (case bumpArray s1 (outputbRef nw) v (nmul lr err) of
                     Inl e \<Rightarrow> (Inl e, s1)
                   | Inr s2 \<Rightarrow> updateOutputS target lr probs lastHidden vs nw s2)))"

text \<open>
  The loop over the coordinates \<open>d\<close> of the embedding row of one token, on the store:
  \<open>newWeights.embeddings[tokenId][d] += adjustment\<close>.
\<close>

fun perturbRowS ::
  "jsnum \<Rightarrow> addr \<Rightarrow> nat \<Rightarrow> nat list \<Rightarrow> rng \<Rightarrow> store \<Rightarrow> (fault + rng) \<times> store" where
  "perturbRowS lr m t [] g s = (Inr g, s)"
| "perturbRowS lr m t (d # ds) g s =
     (let (u, g1) = random g;
          adjustment = nmul (nmul lr (nsub (Number u) (Number (1 / 2)))) (Number (1 / 10))
      in case bumpEntry s m t d adjustment of
           Inl e \<Rightarrow> (Inl e, s)
         | Inr s1 \<Rightarrow> perturbRowS lr m t ds g1 s1)"

text \<open>
  \<open>newWeights.embeddings[tokenId].length\<close>: throws where the matrix has no such row.
\<close>

definition rowLength :: "store \<Rightarrow> addr \<Rightarrow> int \<Rightarrow> fault + nat" where
  "rowLength s m t =
     (case arrays s m of
        None \<Rightarrow> Inl IllTyped
      | Some cs \<Rightarrow>
          (case getAt cs t of
             None \<Rightarrow> Inl (Thrown TypeError)
           | Some (CArr r) \<Rightarrow>
               (case arrays s r of None \<Rightarrow> Inl IllTyped | Some xs \<Rightarrow> Inr (length xs))
           | Some _ \<Rightarrow> Inl IllTyped))"

fun perturbTokensS ::
  "jsnum \<Rightarrow> int list \<Rightarrow> addr \<Rightarrow> rng \<Rightarrow> store \<Rightarrow> (fault + rng) \<times> store" where
  "perturbTokensS lr [] m g s = (Inr g, s)"
| "perturbTokensS lr (t # ts) m g s =
     (case rowLength s m t of
        Inl e \<Rightarrow> (Inl e, s)
      | Inr n \<Rightarrow>
          (case perturbRowS lr m (nat t) [0..<n] g s of
             (Inl e, s1) \<Rightarrow> (Inl e, s1)
           | (Inr g1, s1) \<Rightarrow> perturbTokensS lr ts m g1 s1))"

text \<open>
  \<open>trainStep\<close> on the store: the outcome, and the store after the call. \<open>forward\<close> only
  reads the weights and writes to arrays it has created itself, so it is the function of
  the value of the weights defined above. A result holds the references of \<open>newWeights\<close>.
\<close>

record TrainResultS =
  newWeightsRef :: WeightsRef
  stepLossS :: "jsnum option"
  resultS :: ForwardResult

definition trainStepS ::
  "int list \<Rightarrow> int \<Rightarrow> WeightsRef \<Rightarrow> jsnum \<Rightarrow> rng \<Rightarrow> store \<Rightarrow>
   (fault + (TrainResultS \<times> rng)) \<times> store" where
  "trainStepS toks target wr lr g s =
     (case readWeights s wr of
        None \<Rightarrow> (Inl IllTyped, s)
      | Some weights \<Rightarrow>
          (case forward toks weights (Some target) of
             Inl e \<Rightarrow> (Inl (Thrown e), s)
           | Inr res \<Rightarrow>
               (case copyWeights s wr of
                  None \<Rightarrow> (Inl IllTyped, s)
                | Some (s1, nw) \<Rightarrow>
                    (let probs = probabilities res;
                         lastLayerIdx = int (length (layerOutputs res)) - 1
                     in case getAt (layerOutputs res) lastLayerIdx of
                          None \<Rightarrow> (Inl (Thrown TypeError), s1)
                        | Some lo \<Rightarrow>
                            (let lastHidden = getAt (ffnOutput lo) (int (length toks) - 1)
                             in case updateOutputS target lr probs lastHidden
                                       [0..<length probs] nw s1 of
                                  (Inl e, s2) \<Rightarrow> (Inl e, s2)
                                | (Inr _, s2) \<Rightarrow>
                                    (case perturbTokensS lr toks (embeddingsRef nw) g s2 of
                                       (Inl e, s3) \<Rightarrow> (Inl e, s3)
                                     | (Inr g', s3) \<Rightarrow>
                                         (Inr (\<lparr>newWeightsRef = nw, stepLossS = loss res,
                                                resultS = res\<rparr>, g'),
                                          s3)))))))"

text \<open>Two properties of a way to read values from the store, used in the proofs below.\<close>

text \<open>
  \<open>footprintOK rd fp\<close>: a value that \<open>rd\<close> reads lies in allocated arrays, and \<open>rd\<close> and
  \<open>fp\<close> depend only on the arrays in \<open>fp\<close>.
\<close>

definition footprintOK ::
  "(store \<Rightarrow> 'h \<Rightarrow> 'v option) \<Rightarrow> (store \<Rightarrow> 'h \<Rightarrow> addr set) \<Rightarrow> bool" where
  "footprintOK rd fp \<longleftrightarrow>
     (\<forall>s h v. rd s h = Some v \<longrightarrow>
        (\<forall>a\<in>fp s h. arrays s a \<noteq> None) \<and>
        (\<forall>s2. (\<forall>a\<in>fp s h. arrays s2 a = arrays s a) \<longrightarrow> rd s2 h = Some v \<and> fp s2 h = fp s h))"

text \<open>
  \<open>copier cp rd fp\<close>: on a well-formed store \<open>cp\<close> copies every value that \<open>rd\<close> reads into
  arrays it allocates, and changes no array that existed.
\<close>

definition copier ::
  "(store \<Rightarrow> 'h \<Rightarrow> (store \<times> 'h) option) \<Rightarrow> (store \<Rightarrow> 'h \<Rightarrow> 'v option) \<Rightarrow>
   (store \<Rightarrow> 'h \<Rightarrow> addr set) \<Rightarrow> bool" where
  "copier cp rd fp \<longleftrightarrow>
     (\<forall>s h v. wfStore s \<longrightarrow> rd s h = Some v \<longrightarrow>
        (\<exists>s' h'. cp s h = Some (s', h') \<and> wfStore s' \<and> fresh s \<le> fresh s' \<and>
           (\<forall>a<fresh s. arrays s' a = arrays s a) \<and> rd s' h' = Some v \<and>
           fp s' h' \<subseteq> {fresh s..<fresh s'}))"

text \<open>
  \<open>matrixAt s m rs M\<close>: the array at \<open>m\<close> holds references to the distinct arrays \<open>rs\<close>,
  none of them \<open>m\<close> itself, and these hold the rows of \<open>M\<close>.
\<close>

definition matrixAt :: "store \<Rightarrow> addr \<Rightarrow> addr list \<Rightarrow> matrix \<Rightarrow> bool" where
  "matrixAt s m rs M \<longleftrightarrow>
     arrays s m = Some (map CArr rs) \<and> distinct rs \<and> m \<notin> set rs \<and> length M = length rs \<and>
     (\<forall>i<length rs. arrays s (rs ! i) = Some (map CNum (M ! i)))"

subsection \<open>A concrete store\<close>

text \<open>
  Weights of vocabulary size 1 and hidden width 1 with one layer and one head (every
  matrix 1 by 1), and a store that holds them in 19 arrays.
\<close>

definition tinyWeights :: Weights where
  "tinyWeights =
     \<lparr>embeddings = [[Number 1]],
      layers =
        [\<lparr>attention = \<lparr>heads = [\<lparr>Wq = [[Number 0]], Wk = [[Number 0]], Wv = [[Number 0]]\<rparr>]\<rparr>,
          ffn = \<lparr>W1 = [[Number 0]], b1 = [Number 0], W2 = [[Number 0]], b2 = [Number 1]\<rparr>\<rparr>],
      outputLayer = \<lparr>W = [[Number 1]], b = [Number 0]\<rparr>\<rparr>"

definition tinyArrays :: "cell list list" where
  "tinyArrays =
     [[CNum (Number 1)], [CArr 0],
      [CNum (Number 0)], [CArr 2], [CNum (Number 0)], [CArr 4], [CNum (Number 0)], [CArr 6],
      [CHead 3 5 7],
      [CNum (Number 0)], [CArr 9], [CNum (Number 0)],
      [CNum (Number 0)], [CArr 12], [CNum (Number 1)],
      [CLayer 8 10 11 13 14],
      [CNum (Number 1)], [CArr 16], [CNum (Number 0)]]"

definition tinyStore :: store where
  "tinyStore =
     \<lparr>arrays = (\<lambda>a. if a < length tinyArrays then Some (tinyArrays ! a) else None),
      fresh = length tinyArrays\<rparr>"

definition tinyRef :: WeightsRef where
  "tinyRef = \<lparr>embeddingsRef = 1, layersRef = 15, outputWRef = 17, outputbRef = 18\<rparr>"

section \<open>The engine with the source of random numbers threaded through\<close>

text \<open>
  \<open>Math.random\<close> is a global: any function and any callback of the engine could call it.
  This section embeds \<open>forward\<close> and everything it calls once more, now the way
  \<open>perturbRow\<close> is embedded: every function takes the state of the source of random numbers
  and returns it with its result, every call hands the state on, and the array methods
  \<open>map\<close> and \<open>reduce\<close> and the loops hand it from one run of their callback or body to the
  next. A call of \<open>Math.random\<close> anywhere in these functions would show as a use of
  \<open>random\<close>. The arithmetic operators and the built-in \<open>Math.max\<close>, \<open>Math.exp\<close>,
  \<open>Math.sqrt\<close> and \<open>Math.log\<close> are the only steps taken not to touch the state.
\<close>

type_synonym 'a rand = "rng \<Rightarrow> 'a \<times> rng"

text \<open>\<open>xs.map(f)\<close> and a loop that pushes one element per iteration.\<close>

fun mapR :: "('a \<Rightarrow> 'b rand) \<Rightarrow> 'a list \<Rightarrow> 'b list rand" where
  "mapR f [] g = ([], g)"
| "mapR f (x # xs) g =
     (case f x g of (y, g1) \<Rightarrow> case mapR f xs g1 of (ys, g2) \<Rightarrow> (y # ys, g2))"

text \<open>\<open>xs.reduce(f, a)\<close> and a loop that updates an accumulator.\<close>

fun foldlR :: "('b \<Rightarrow> 'a \<Rightarrow> 'b rand) \<Rightarrow> 'b \<Rightarrow> 'a list \<Rightarrow> 'b rand" where
  "foldlR f a [] g = (a, g)"
| "foldlR f a (x # xs) g = (case f a x g of (a', g1) \<Rightarrow> foldlR f a' xs g1)"

definition softmaxR :: "vec \<Rightarrow> vec rand" where
  "softmaxR x g0 =
     (case x of
        [] \<Rightarrow> ([], g0)
      | x0 # rest \<Rightarrow>
          (let maxVal = maxOf x0 rest
           in case mapR (\<lambda>v g. (nexp (nsub v maxVal), g)) x g0 of
                (expValues, g1) \<Rightarrow>
                  (case foldlR (\<lambda>a v g. (nadd a v, g)) (Number 0) expValues g1 of
                     (sumExp, g2) \<Rightarrow> mapR (\<lambda>v g. (ndiv v sumExp, g)) expValues g2)))"

fun dotFromR :: "jsnum \<Rightarrow> vec \<Rightarrow> vec \<Rightarrow> jsnum rand" where
  "dotFromR s [] ys g = (s, g)"
| "dotFromR s (v # vs) [] g = dotFromR (nadd s (nmul v NaN)) vs [] g"
| "dotFromR s (v # vs) (y # ys) g = dotFromR (nadd s (nmul v y)) vs ys g"

definition dotProductR :: "vec \<Rightarrow> vec \<Rightarrow> jsnum rand" where
  "dotProductR a ys g = dotFromR (Number 0) a ys g"

definition matVecMulR :: "matrix \<Rightarrow> vec \<Rightarrow> vec rand" where
  "matVecMulR m v g = mapR (\<lambda>row. dotProductR row v) m g"

fun vecAddR :: "vec \<Rightarrow> vec \<Rightarrow> vec rand" where
  "vecAddR [] ys g = ([], g)"
| "vecAddR (v # vs) [] g = (case vecAddR vs [] g of (rest, g1) \<Rightarrow> (nadd v NaN # rest, g1))"
| "vecAddR (v # vs) (y # ys) g = (case vecAddR vs ys g of (rest, g1) \<Rightarrow> (nadd v y # rest, g1))"

definition reluR :: "vec \<Rightarrow> vec rand" where
  "reluR x g = mapR (\<lambda>v g. (nmax (Number 0) v, g)) x g"

definition layerNormR :: "vec \<Rightarrow> vec rand" where
  "layerNormR x g0 =
     (let n = Number (real (length x))
      in case foldlR (\<lambda>a v g. (nadd a v, g)) (Number 0) x g0 of
           (summed, g1) \<Rightarrow>
             (let mean = ndiv summed n
              in case foldlR (\<lambda>s v g. (nadd s (nmul (nsub v mean) (nsub v mean)), g))
                        (Number 0) x g1 of
                   (squares, g2) \<Rightarrow>
                     (let variance = ndiv squares n;
                          std = nsqrt (nadd variance (Number (1 / 100000)))
                      in mapR (\<lambda>v g. (ndiv (nsub v mean) std, g)) x g2)))"

definition crossEntropyLossR :: "vec \<Rightarrow> int \<Rightarrow> jsnum rand" where
  "crossEntropyLossR predicted targetIndex g =
     (let p = (if 0 \<le> targetIndex then getN predicted (nat targetIndex) else NaN);
          prob = nmax p (Number (1 / 10000000000))
      in (nneg (nlog prob), g))"

definition rowScoresR :: "nat \<Rightarrow> matrix \<Rightarrow> matrix \<Rightarrow> jsnum \<Rightarrow> nat \<Rightarrow> vec rand" where
  "rowScoresR seqLen Q K scale i g0 =
     mapR (\<lambda>j g. if j > i then (Number (- 1000000000), g)
                  else (case dotProductR (Q ! i) (K ! j) g of (dp, g1) \<Rightarrow> (ndiv dp scale, g1)))
       [0..<seqLen] g0"

definition weightedSumR :: "nat \<Rightarrow> matrix \<Rightarrow> vec \<Rightarrow> vec rand" where
  "weightedSumR seqLen V scoreRow g0 =
     (case mapR (\<lambda>_ g. (Number 0, g)) (V ! 0) g0 of
        (zeros, g1) \<Rightarrow>
          foldlR (\<lambda>weighted j.
                    mapR (\<lambda>k g. (nadd (weighted ! k) (nmul (getN scoreRow j) (getN (V ! j) k)), g))
                      [0..<length (V ! 0)])
            zeros [0..<seqLen] g1)"

definition projectR :: "matrix \<Rightarrow> matrix \<Rightarrow> matrix rand" where
  "projectR M input g = mapR (\<lambda>x. matVecMulR M x) input g"

definition attentionHeadR :: "matrix \<Rightarrow> AttentionHead \<Rightarrow> (error + (matrix \<times> matrix)) rand" where
  "attentionHeadR input head g0 =
     (let seqLen = length input
      in case projectR (Wq head) input g0 of
           (Q, g1) \<Rightarrow>
             (case projectR (Wk head) input g1 of
                (K, g2) \<Rightarrow>
                  (case projectR (Wv head) input g2 of
                     (V, g3) \<Rightarrow>
                       (case Q of
                          [] \<Rightarrow> (Inl TypeError, g3)
                        | q0 # _ \<Rightarrow>
                            (let dk = length q0;
                                 scale = nsqrt (Number (real dk))
                             in case mapR (\<lambda>i g.
                                       case rowScoresR seqLen Q K scale i g of
                                         (row, g') \<Rightarrow> softmaxR row g')
                                     [0..<seqLen] g3 of
                                  (scores, g4) \<Rightarrow>
                                    (case mapR (\<lambda>i. weightedSumR seqLen V (scores ! i))
                                            [0..<seqLen] g4 of
                                       (outp, g5) \<Rightarrow> (Inr (scores, outp), g5)))))))"

definition feedForwardR :: "vec \<Rightarrow> FFN \<Rightarrow> vec rand" where
  "feedForwardR input f g0 =
     (case matVecMulR (W1 f) input g0 of
        (m1, g1) \<Rightarrow>
          (case vecAddR m1 (b1 f) g1 of
             (a1, g2) \<Rightarrow>
               (case reluR a1 g2 of
                  (hidden, g3) \<Rightarrow>
                    (case matVecMulR (W2 f) hidden g3 of
                       (m2, g4) \<Rightarrow> vecAddR m2 (b2 f) g4))))"

fun lookupAllR :: "matrix \<Rightarrow> int list \<Rightarrow> (error + matrix) rand" where
  "lookupAllR E [] g = (Inr [], g)"
| "lookupAllR E (t # ts) g =
     (case getAt E t of
        None \<Rightarrow> (Inl TypeError, g)
      | Some row \<Rightarrow>
          (case lookupAllR E ts g of
             (Inl e, g1) \<Rightarrow> (Inl e, g1)
           | (Inr rows, g1) \<Rightarrow> (Inr (row # rows), g1)))"

fun runHeadsR ::
  "matrix \<Rightarrow> AttentionHead list \<Rightarrow> (error + (matrix list \<times> matrix list)) rand" where
  "runHeadsR current [] g = (Inr ([], []), g)"
| "runHeadsR current (h # hs) g =
     (case attentionHeadR current h g of
        (Inl e, g1) \<Rightarrow> (Inl e, g1)
      | (Inr (scores, outp), g1) \<Rightarrow>
          (case runHeadsR current hs g1 of
             (Inl e, g2) \<Rightarrow> (Inl e, g2)
           | (Inr (allScores, headOutputs), g2) \<Rightarrow>
               (Inr (scores # allScores, outp # headOutputs), g2)))"

definition combineHeadsR :: "matrix \<Rightarrow> matrix list \<Rightarrow> nat \<Rightarrow> vec rand" where
  "combineHeadsR current headOutputs i g0 =
     (case mapR (\<lambda>_ g. (Number 0, g)) (current ! 0) g0 of
        (zeros, g1) \<Rightarrow>
          foldlR (\<lambda>combined headOut.
                    mapR (\<lambda>d g. (nadd (combined ! d)
                                   (ndiv (wrapGet (headOut ! i) d)
                                      (Number (real (length headOutputs)))), g))
                      [0..<length combined])
            zeros headOutputs g1)"

definition layerStepR :: "matrix \<Rightarrow> TransformerLayer \<Rightarrow> (error + (matrix \<times> LayerOutput)) rand" where
  "layerStepR current layer g0 =
     (case runHeadsR current (heads (attention layer)) g0 of
        (Inl e, g1) \<Rightarrow> (Inl e, g1)
      | (Inr (allScores, headOutputs), g1) \<Rightarrow>
          (case mapR (\<lambda>i. combineHeadsR current headOutputs i) [0..<length current] g1 of
             (attnOut, g2) \<Rightarrow>
               (case mapR (\<lambda>i g. case vecAddR (current ! i) (attnOut ! i) g of
                                    (s, g') \<Rightarrow> layerNormR s g')
                       [0..<length current] g2 of
                  (afterAttention, g3) \<Rightarrow>
                    (case mapR (\<lambda>x. feedForwardR x (ffn layer)) afterAttention g3 of
                       (ffnOut, g4) \<Rightarrow>
                         (case mapR (\<lambda>i g. case vecAddR (afterAttention ! i) (ffnOut ! i) g of
                                              (s, g') \<Rightarrow> layerNormR s g')
                                 [0..<length afterAttention] g4 of
                            (current', g5) \<Rightarrow>
                              (Inr (current',
                                    \<lparr>attentionScores = allScores,
                                     attentionOutput = attnOut,
                                     ffnOutput = ffnOut\<rparr>), g5))))))"

fun runLayersR ::
  "matrix \<Rightarrow> TransformerLayer list \<Rightarrow> (error + (matrix \<times> LayerOutput list)) rand" where
  "runLayersR current [] g = (Inr (current, []), g)"
| "runLayersR current (layer # rest) g =
     (case layerStepR current layer g of
        (Inl e, g1) \<Rightarrow> (Inl e, g1)
      | (Inr (current', lo), g1) \<Rightarrow>
          (case runLayersR current' rest g1 of
             (Inl e, g2) \<Rightarrow> (Inl e, g2)
           | (Inr (final, los), g2) \<Rightarrow> (Inr (final, lo # los), g2)))"

definition matVecMulUR :: "matrix \<Rightarrow> vec option \<Rightarrow> (error + vec) rand" where
  "matVecMulUR m v g =
     (case v of
        Some x \<Rightarrow> (case matVecMulR m x g of (y, g1) \<Rightarrow> (Inr y, g1))
      | None \<Rightarrow> if list_all (\<lambda>row. row = []) m then (Inr (map (\<lambda>_. Number 0) m), g)
                else (Inl TypeError, g))"

fun findMaxR :: "jsnum \<Rightarrow> nat \<Rightarrow> nat \<Rightarrow> vec \<Rightarrow> nat rand" where
  "findMaxR maxProb predicted i [] g = (predicted, g)"
| "findMaxR maxProb predicted i (p # ps) g =
     (if ngt p maxProb then findMaxR p i (Suc i) ps g
      else findMaxR maxProb predicted (Suc i) ps g)"

definition forwardR :: "int list \<Rightarrow> Weights \<Rightarrow> int option \<Rightarrow> (error + ForwardResult) rand" where
  "forwardR toks weights target g0 =
     (let seqLen = length toks
      in case lookupAllR (embeddings weights) toks g0 of
           (Inl e, g1) \<Rightarrow> (Inl e, g1)
         | (Inr current0, g1) \<Rightarrow>
             (case runLayersR current0 (layers weights) g1 of
                (Inl e, g2) \<Rightarrow> (Inl e, g2)
              | (Inr (current, los), g2) \<Rightarrow>
                  (let lastHidden = getAt current (int seqLen - 1)
                   in case matVecMulUR (W (outputLayer weights)) lastHidden g2 of
                        (Inl e, g3) \<Rightarrow> (Inl e, g3)
                      | (Inr projected, g3) \<Rightarrow>
                          (case vecAddR projected (b (outputLayer weights)) g3 of
                             (lgts, g4) \<Rightarrow>
                               (case softmaxR lgts g4 of
                                  (probs, g5) \<Rightarrow>
                                    (case findMaxR (Number (- 1)) 0 0 probs g5 of
                                       (predicted, g6) \<Rightarrow>
                                         (case (case target of
                                                  None \<Rightarrow> (None, g6)
                                                | Some t \<Rightarrow>
                                                    (case crossEntropyLossR probs t g6 of
                                                       (l, g') \<Rightarrow> (Some l, g'))) of
                                            (lossValue, g7) \<Rightarrow>
                                              (Inr \<lparr>inputTokens = toks,
                                                    embeddingsSnapshot = current0,
                                                    layerOutputs = los,
                                                    logits = lgts,
                                                    probabilities = probs,
                                                    predictedToken = predicted,
                                                    loss = lossValue,
                                                    targetToken = target\<rparr>, g7))))))))"

section \<open>Double precision\<close>

text \<open>
  The claims on \<open>softmax\<close> and \<open>layerNorm\<close> are about what the program computes in IEEE 754
  double precision (binary64), so these two functions are embedded once more over a model
  of it. A double is a real that fits 53 bits of mantissa, \<open>+Infinity\<close>, \<open>-Infinity\<close> or
  \<open>NaN\<close>; every operation rounds the exact result to the nearest double, ties to the even
  mantissa. The model has one zero: \<open>-0\<close> is identified with \<open>0\<close>. The two differ only as a
  divisor and under \<open>Object.is\<close>, and no divisor of \<open>softmax\<close> or \<open>layerNorm\<close> is a zero.
\<close>

datatype double = Fin real | PosInf | NegInf | NaNd

text \<open>Rounding a real to the nearest integer, ties to even.\<close>

definition roundEven :: "real \<Rightarrow> int" where
  "roundEven y =
     (let f = \<lfloor>y\<rfloor>; r = y - of_int f
      in if r < 1 / 2 then f else if 1 / 2 < r then f + 1 else if even f then f else f + 1)"

text \<open>
  The exponent \<open>e\<close> of the binade of \<open>x\<close>: \<open>2^e \<le> |x| < 2^(e+1)\<close>, found by counting up from
  0 or down from -1, and kept within \<open>-1022\<close> (the subnormal numbers share the exponent of
  the smallest normal ones) and \<open>1024\<close> (at and above \<open>2^1024\<close> every number rounds to an
  infinity).
\<close>

fun binadeUp :: "nat \<Rightarrow> int \<Rightarrow> real \<Rightarrow> int" where
  "binadeUp 0 e a = e"
| "binadeUp (Suc k) e a = (if 2 powi (e + 1) \<le> a then binadeUp k (e + 1) a else e)"

fun binadeDown :: "nat \<Rightarrow> int \<Rightarrow> real \<Rightarrow> int" where
  "binadeDown 0 e a = e"
| "binadeDown (Suc k) e a = (if a < 2 powi e then binadeDown k (e - 1) a else e)"

definition binade :: "real \<Rightarrow> int" where
  "binade x = (if 1 \<le> \<bar>x\<bar> then binadeUp 1024 0 \<bar>x\<bar> else binadeDown 1021 (- 1) \<bar>x\<bar>)"

text \<open>The distance between neighbouring doubles in the binade of \<open>x\<close>: 52 bits below it.\<close>

definition ulp :: "real \<Rightarrow> real" where
  "ulp x = 2 powi (binade x - 52)"

definition nearest :: "real \<Rightarrow> real" where
  "nearest x = of_int (roundEven (x / ulp x)) * ulp x"

text \<open>The result of an operation whose exact value is \<open>x\<close>: overflow gives an infinity.\<close>

definition rnd :: "real \<Rightarrow> double" where
  "rnd x =
     (let y = nearest x
      in if 2 ^ 1024 \<le> y then PosInf else if y \<le> - (2 ^ 1024) then NegInf else Fin y)"






fun dmul :: "double \<Rightarrow> double \<Rightarrow> double" where
  "dmul (Fin a) (Fin y) = rnd (a * y)"
| "dmul NaNd _ = NaNd"
| "dmul _ NaNd = NaNd"
| "dmul PosInf (Fin y) = (if y = 0 then NaNd else if 0 < y then PosInf else NegInf)"
| "dmul NegInf (Fin y) = (if y = 0 then NaNd else if 0 < y then NegInf else PosInf)"
| "dmul (Fin a) PosInf = (if a = 0 then NaNd else if 0 < a then PosInf else NegInf)"
| "dmul (Fin a) NegInf = (if a = 0 then NaNd else if 0 < a then NegInf else PosInf)"
| "dmul PosInf PosInf = PosInf"
| "dmul NegInf NegInf = PosInf"
| "dmul PosInf NegInf = NegInf"
| "dmul NegInf PosInf = NegInf"







section \<open>Properties of the vector operations\<close>

lemma foldl_nadd_Number:
  "foldl nadd (Number s) (map Number rs) = Number (s + sum_list rs)"
  by (induction rs arbitrary: s) (simp_all add: add.assoc)

lemma sum_list_divide: "(\<Sum>r\<leftarrow>rs. f r / (s::real)) = (\<Sum>r\<leftarrow>rs. f r) / s"
  by (induction rs) (simp_all add: add_divide_distrib)

lemma one_plus_exp_nonzero: "1 + exp (x::real) \<noteq> 0"
  using exp_gt_zero [of x] by linarith

lemmas engine_defs =
  attentionHead_def rawScores_def project_def matVecMul_def dotProduct_def rowScores_def
  softmax_def weightedSum_def getN_def Let_def getAt_def layerStep_def combineHeads_def
  wrapGet_def layerNorm_def feedForward_def relu_def forward_def matVecMulU_def
  crossEntropyLoss_def trainStep_def bumpAt_def random_def constRng_def one_plus_exp_nonzero

lemma lookupAll_valid:
  "(\<forall>t\<in>set toks. 0 \<le> t \<and> t < int (length E)) \<Longrightarrow>
   lookupAll E toks = Inr (map (\<lambda>t. E ! nat t) toks)"
  by (induction toks) (simp_all add: getAt_def)

lemma error_is_TypeError: "(e::error) = TypeError"
  by (cases e) simp

lemma two_over_sqrt_two: "2 / sqrt 2 \<noteq> (2::real)"
proof
  assume "2 / sqrt 2 = (2::real)"
  then have "sqrt 2 = (1::real)" by (simp add: field_simps)
  then show False by simp
qed

lemma perturbRow_explicit:
  "perturbRow lr row g =
     (map (\<lambda>d. nadd (row ! d) (nmul (nmul lr (Number (g d - 1 / 2))) (Number (1 / 10))))
        [0..<length row],
      \<lambda>n. g (n + length row))"
proof (induction row arbitrary: g)
  case Nil
  show ?case by simp
next
  case (Cons x xs)
  have "map (\<lambda>d. nadd ((x # xs) ! d) (nmul (nmul lr (Number (g d - 1 / 2))) (Number (1 / 10))))
          [0..<length (x # xs)]
        = nadd x (nmul (nmul lr (Number (g 0 - 1 / 2))) (Number (1 / 10))) #
          map (\<lambda>d. nadd (xs ! d) (nmul (nmul lr (Number (g (Suc d) - 1 / 2))) (Number (1 / 10))))
            [0..<length xs]"
  proof -
    have "[0..<length (x # xs)] = 0 # map Suc [0..<length xs]"
      by (simp add: upt_conv_Cons map_Suc_upt del: upt_Suc)
    then show ?thesis by (simp add: comp_def del: upt_Suc)
  qed
  then show ?case
    by (simp add: Cons.IH random_def)
qed

lemma occurrences_Cons:
  "occurrences (t # ts) i = (if t = int i then [0] else []) @ map Suc (occurrences ts i)"
proof -
  have "[0..<length (t # ts)] = 0 # map Suc [0..<length ts]"
    by (simp add: upt_conv_Cons map_Suc_upt del: upt_Suc)
  then show ?thesis
    by (simp add: occurrences_def filter_map comp_def)
qed

lemma length_occurrences: "length (occurrences toks i) = count_list toks (int i)"
proof (induction toks)
  case Nil
  show ?case by (simp add: occurrences_def)
next
  case (Cons t ts)
  then show ?case by (simp add: occurrences_Cons)
qed

lemma drawIndex_Cons:
  "drawIndex E (t # ts) (Suc p) d = length (E ! nat t) + drawIndex E ts p d"
  by (simp add: drawIndex_def)

lemma drawIndex_update:
  assumes "length row' = length (E ! k)"
  shows "drawIndex (E[k := row']) ts p d = drawIndex E ts p d"
proof -
  have "length (E[k := row'] ! j) = length (E ! j)" for j
  proof (cases "j = k")
    case True
    show ?thesis
    proof (cases "k < length E")
      case True
      with \<open>j = k\<close> assms show ?thesis by simp
    next
      case False
      then have "E[k := row'] = E" by (simp add: list_update_beyond)
      then show ?thesis by simp
    qed
  next
    case False
    then show ?thesis by simp
  qed
  then show ?thesis by (simp add: drawIndex_def)
qed

lemma drawIndex_mono:
  assumes "p \<le> q"
  shows "drawIndex E toks p 0 \<le> drawIndex E toks q 0"
proof -
  have "take q toks = take p toks @ take (q - p) (drop p toks)"
    using assms by (metis le_add_diff_inverse take_add)
  then show ?thesis by (simp add: drawIndex_def)
qed

lemma drawIndex_Suc:
  assumes "p < length toks"
  shows "drawIndex E toks (Suc p) 0 = drawIndex E toks p 0 + length (E ! nat (toks ! p))"
  using assms by (simp add: drawIndex_def take_Suc_conv_app_nth)

lemma drawIndex_inj:
  assumes "p < length toks" "q < length toks"
    and "d < length (E ! nat (toks ! p))" "e < length (E ! nat (toks ! q))"
    and "drawIndex E toks p d = drawIndex E toks q e"
  shows "p = q \<and> d = e"
proof -
  have split: "drawIndex E toks p d = drawIndex E toks p 0 + d" for p d
    by (simp add: drawIndex_def)
  have less: "drawIndex E toks p d < drawIndex E toks q e"
    if "p < q" "p < length toks" "d < length (E ! nat (toks ! p))" for p q d e
  proof -
    have "drawIndex E toks p d < drawIndex E toks (Suc p) 0"
      using that drawIndex_Suc [of p toks E] split [of p d] by simp
    also have "\<dots> \<le> drawIndex E toks q 0" using that by (intro drawIndex_mono) simp
    also have "\<dots> \<le> drawIndex E toks q e" using split [of q e] by simp
    finally show ?thesis .
  qed
  have "p = q"
  proof (rule ccontr)
    assume "p \<noteq> q"
    then consider "p < q" | "q < p" by linarith
    then show False
      using less [of p q d e] less [of q p e d] assms by cases simp_all
  qed
  then show ?thesis using assms(5) split [of p d] split [of q e] by simp
qed

lemma perturbTokens_draws:
  assumes "perturbTokens lr ts E g = Inr (E', g')"
  shows "length E' = length E \<and>
         (\<forall>i<length E. length (E' ! i) = length (E ! i) \<and>
            (\<forall>d<length (E ! i).
               E' ! i ! d =
                 foldl (\<lambda>y p. nadd y (nmul (nmul lr (Number (g (drawIndex E ts p d) - 1 / 2)))
                                         (Number (1 / 10))))
                   (E ! i ! d) (occurrences ts i))) \<and>
         g' = (\<lambda>n. g (n + drawIndex E ts (length ts) 0))"
  using assms
proof (induction ts arbitrary: E g)
  case Nil
  then show ?case by (simp add: occurrences_def drawIndex_def)
next
  case (Cons t ts)
  from Cons.prems have tr: "0 \<le> t" "t < int (length E)"
    by (auto simp: getAt_def split: if_splits)
  define row where "row = E ! nat t"
  define row' where "row' = map (\<lambda>d. nadd (row ! d) (nmul (nmul lr (Number (g d - 1 / 2))) (Number (1 / 10)))) [0..<length row]"
  define g1 where "g1 = (\<lambda>n. g (n + length row))"
  define E1 where "E1 = E[nat t := row']"
  have rec: "perturbTokens lr ts E1 g1 = Inr (E', g')"
    using Cons.prems tr
    by (simp add: getAt_def perturbRow_explicit row_def row'_def g1_def E1_def)
  note IH = Cons.IH [OF rec]
  have len1: "length E1 = length E" by (simp add: E1_def)
  have lrow: "length row' = length (E ! nat t)" by (simp add: row'_def row_def)
  have di: "drawIndex E1 ts p d = drawIndex E ts p d" for p d
    unfolding E1_def by (rule drawIndex_update [OF lrow])
  have shift: "g1 (drawIndex E1 ts p d) = g (drawIndex E (t # ts) (Suc p) d)" for p d
    by (simp add: g1_def di drawIndex_Cons row_def add.commute)
  have fold_shift:
    "foldl (\<lambda>y p. nadd y (nmul (nmul lr (Number (g1 (drawIndex E1 ts p d) - 1 / 2))) (Number (1 / 10)))) x ps
     = foldl (\<lambda>y p. nadd y (nmul (nmul lr (Number (g (drawIndex E (t # ts) p d) - 1 / 2))) (Number (1 / 10)))) x
         (map Suc ps)" for x ps d
    by (induction ps arbitrary: x) (simp_all add: shift)
  show ?case
  proof (intro conjI allI impI)
    show "length E' = length E" using IH len1 by simp
  next
    fix i assume i: "i < length E"
    show "length (E' ! i) = length (E ! i)"
      using IH i len1 by (cases "i = nat t") (simp_all add: E1_def row'_def row_def)
  next
    fix i d assume i: "i < length E" and d: "d < length (E ! i)"
    have d1: "d < length (E1 ! i)"
      using i d by (cases "i = nat t") (simp_all add: E1_def row'_def row_def)
    have i1: "i < length E1" using i len1 by simp
    from IH [THEN conjunct2, THEN conjunct1, rule_format, OF i1, THEN conjunct2, rule_format, OF d1]
    have e': "E' ! i ! d =
        foldl (\<lambda>y p. nadd y (nmul (nmul lr (Number (g (drawIndex E (t # ts) p d) - 1 / 2))) (Number (1 / 10))))
          (E1 ! i ! d) (map Suc (occurrences ts i))"
      by (simp add: fold_shift)
    show "E' ! i ! d =
        foldl (\<lambda>y p. nadd y (nmul (nmul lr (Number (g (drawIndex E (t # ts) p d) - 1 / 2))) (Number (1 / 10))))
          (E ! i ! d) (occurrences (t # ts) i)"
    proof (cases "i = nat t")
      case True
      then have ti: "t = int i" using tr by simp
      have e1: "E1 ! i ! d = nadd (E ! i ! d) (nmul (nmul lr (Number (g d - 1 / 2))) (Number (1 / 10)))"
        using True i d by (simp add: E1_def row'_def row_def)
      have d0: "drawIndex E (t # ts) 0 d = d" by (simp add: drawIndex_def)
      have occ: "occurrences (t # ts) i = 0 # map Suc (occurrences ts i)"
        using ti by (simp add: occurrences_Cons)
      show ?thesis unfolding occ by (simp add: e' e1 d0)
    next
      case False
      then have ti: "t \<noteq> int i" using tr by auto
      have e1: "E1 ! i = E ! i" using False by (simp add: E1_def)
      have occ: "occurrences (t # ts) i = map Suc (occurrences ts i)"
        using ti by (simp add: occurrences_Cons)
      show ?thesis unfolding occ by (simp add: e' e1)
    qed
  next
    have "g' = (\<lambda>n. g1 (n + drawIndex E1 ts (length ts) 0))" using IH by simp
    also have "\<dots> = (\<lambda>n. g (n + drawIndex E (t # ts) (length (t # ts)) 0))"
      by (simp add: g1_def di drawIndex_Cons row_def ac_simps)
    finally show "g' = (\<lambda>n. g (n + drawIndex E (t # ts) (length (t # ts)) 0))" .
  qed
qed

lemma trainStep_embeddings:
  assumes "trainStep toks tgt w lr g = Inr (r, g')"
  shows "\<exists>out. perturbTokens lr toks (embeddings w) g = Inr (embeddings (newWeights r), g')"
  using assms
  by (auto simp: trainStep_def Let_def split: sum.splits option.splits)

lemma foldl_sq_Number:
  "foldl (\<lambda>s v. nadd s (nmul (nsub v (Number m)) (nsub v (Number m)))) (Number s) (map Number rs)
     = Number (s + (\<Sum>r\<leftarrow>rs. (r - m) * (r - m)))"
  by (induction rs arbitrary: s) (simp_all add: add.assoc)

lemma varianceOf_nonneg: "0 \<le> varianceOf rs"
proof -
  have "0 \<le> (\<Sum>r\<leftarrow>rs. (r - meanOf rs) * (r - meanOf rs))"
    by (rule sum_list_nonneg) auto
  then show ?thesis by (simp add: varianceOf_def)
qed

lemma std_pos: "0 < sqrt (varianceOf rs + 1 / 100000)"
  using varianceOf_nonneg [of rs] by simp

lemma layerNorm_Number:
  assumes "rs \<noteq> []"
  shows "layerNorm (map Number rs) =
           map (\<lambda>r. Number ((r - meanOf rs) / sqrt (varianceOf rs + 1 / 100000))) rs"
proof -
  have n: "real (length rs) \<noteq> 0" using assms by simp
  have m: "ndiv (foldl nadd (Number 0) (map Number rs)) (Number (real (length rs)))
             = Number (meanOf rs)"
    using n by (simp add: foldl_nadd_Number meanOf_def)
  have v: "ndiv (foldl (\<lambda>s v. nadd s (nmul (nsub v (Number (meanOf rs))) (nsub v (Number (meanOf rs)))))
                   (Number 0) (map Number rs)) (Number (real (length rs)))
             = Number (varianceOf rs)"
    using n by (simp add: foldl_sq_Number varianceOf_def)
  have s: "nsqrt (nadd (Number (varianceOf rs)) (Number (1 / 100000)))
             = Number (sqrt (varianceOf rs + 1 / 100000))"
    using varianceOf_nonneg [of rs] by simp
  have "layerNorm (map Number rs) =
          map (\<lambda>v. ndiv (nsub v (Number (meanOf rs))) (Number (sqrt (varianceOf rs + 1 / 100000))))
            (map Number rs)"
    unfolding layerNorm_def Let_def length_map m v s ..
  also have "\<dots> = map (\<lambda>r. Number ((r - meanOf rs) / sqrt (varianceOf rs + 1 / 100000))) rs"
    using std_pos [of rs] by simp
  finally show ?thesis .
qed

lemma sum_list_sub_mean: "rs \<noteq> [] \<Longrightarrow> (\<Sum>r\<leftarrow>rs. r - meanOf rs) = 0"
proof -
  assume "rs \<noteq> []"
  then have n: "real (length rs) \<noteq> 0" by simp
  have "(\<Sum>r\<leftarrow>rs. r - c) = sum_list rs - real (length rs) * c" for c :: real
    by (induction rs) (simp_all add: algebra_simps)
  then show ?thesis using n by (simp add: meanOf_def)
qed

lemma normalised_mean:
  assumes "rs \<noteq> []"
  shows "meanOf (map (\<lambda>r. (r - meanOf rs) / s) rs) = 0"
proof -
  have "(\<Sum>r\<leftarrow>rs. (r - meanOf rs) / s) = (\<Sum>r\<leftarrow>rs. r - meanOf rs) / s"
    by (rule sum_list_divide)
  then show ?thesis using sum_list_sub_mean [OF assms] by (simp add: meanOf_def comp_def)
qed

lemma normalised_variance:
  assumes "rs \<noteq> []" and "0 < s"
  shows "varianceOf (map (\<lambda>r. (r - meanOf rs) / s) rs) = varianceOf rs / (s * s)"
proof -
  have m0: "meanOf (map (\<lambda>r. (r - meanOf rs) / s) rs) = 0" by (rule normalised_mean [OF assms(1)])
  have "(\<Sum>r\<leftarrow>rs. ((r - meanOf rs) / s) * ((r - meanOf rs) / s))
          = (\<Sum>r\<leftarrow>rs. (r - meanOf rs) * (r - meanOf rs) / (s * s))"
    by simp
  also have "\<dots> = (\<Sum>r\<leftarrow>rs. (r - meanOf rs) * (r - meanOf rs)) / (s * s)"
    by (rule sum_list_divide)
  finally show ?thesis
    unfolding varianceOf_def [of "map (\<lambda>r. (r - meanOf rs) / s) rs"] m0
    by (simp add: comp_def varianceOf_def)
qed

section \<open>Properties of the store\<close>

lemma alloc_fresh: "fresh (fst (alloc s cs)) = Suc (fresh s)"
  by (simp add: alloc_def)

lemma alloc_addr: "snd (alloc s cs) = fresh s"
  by (simp add: alloc_def)

lemma alloc_arrays: "arrays (fst (alloc s cs)) = (arrays s)(fresh s \<mapsto> cs)"
  by (simp add: alloc_def)

lemma alloc_wf: "wfStore s \<Longrightarrow> wfStore (fst (alloc s cs))"
  by (simp add: wfStore_def alloc_def)

lemma wf_allocated: "wfStore s \<Longrightarrow> arrays s a \<noteq> None \<Longrightarrow> a < fresh s"
  by (metis wfStore_def not_le)

lemma footprintOK_keep:
  assumes "footprintOK rd fp" and "rd s h = Some v" and "\<forall>a\<in>fp s h. arrays s2 a = arrays s a"
  shows "rd s2 h = Some v" and "fp s2 h = fp s h"
  using assms unfolding footprintOK_def by blast+

lemma footprintOK_old:
  assumes "footprintOK rd fp" and "wfStore s" and "rd s h = Some v"
  shows "fp s h \<subseteq> {..<fresh s}"
proof
  fix a assume "a \<in> fp s h"
  with assms(1,3) have "arrays s a \<noteq> None" unfolding footprintOK_def by blast
  with assms(2) show "a \<in> {..<fresh s}" by (simp add: wf_allocated)
qed

text \<open>A value read below a limit survives every change above the limit.\<close>

lemma footprintOK_below:
  assumes "footprintOK rd fp" and "rd s h = Some v" and "fp s h \<subseteq> {..<n}"
    and "\<forall>a<n. arrays s2 a = arrays s a"
  shows "rd s2 h = Some v" and "fp s2 h = fp s h"
proof -
  have "\<forall>a\<in>fp s h. arrays s2 a = arrays s a" using assms(3,4) by auto
  with assms(1,2) show "rd s2 h = Some v" and "fp s2 h = fp s h"
    by (rule footprintOK_keep)+
qed

lemma copier_step:
  assumes "copier cp rd fp" and "wfStore s" and "rd s h = Some v"
  obtains s' h' where "cp s h = Some (s', h')" and "wfStore s'" and "fresh s \<le> fresh s'"
    and "\<forall>a<fresh s. arrays s' a = arrays s a" and "rd s' h' = Some v"
    and "fp s' h' \<subseteq> {fresh s..<fresh s'}"
  using assms unfolding copier_def by blast

lemma those_map_cong:
  "(\<And>c. c \<in> set cs \<Longrightarrow> f c = g c) \<Longrightarrow> those (map f cs) = those (map g cs)"
  by (induction cs) (simp_all split: option.splits)

lemma those_Some_mem:
  "those (map f cs) = Some vs \<Longrightarrow> c \<in> set cs \<Longrightarrow> \<exists>v. f c = Some v"
  by (induction cs arbitrary: vs) (auto split: option.splits)

lemma footprintOK_readVec: "footprintOK readVec fpVec"
  by (auto simp: footprintOK_def readVec_def fpVec_def split: option.splits)

lemma copier_spread: "copier spread readVec fpVec"
  unfolding copier_def
proof (intro allI impI)
  fix s a v assume wf: "wfStore s" and rd: "readVec s a = Some v"
  then obtain cs where cs: "arrays s a = Some cs" "those (map cellNum cs) = Some v"
    by (auto simp: readVec_def split: option.splits)
  have "fresh s \<noteq> a" using wf cs(1) wf_allocated by fastforce
  then show "\<exists>s' h'. spread s a = Some (s', h') \<and> wfStore s' \<and> fresh s \<le> fresh s' \<and>
              (\<forall>a<fresh s. arrays s' a = arrays s a) \<and>
              readVec s' h' = Some v \<and> fpVec s' h' \<subseteq> {fresh s..<fresh s'}"
    using cs wf by (simp add: spread_def alloc_def wfStore_def readVec_def fpVec_def)
qed

lemma footprintOK_readRow: "footprintOK readRow fpRow"
  unfolding footprintOK_def
proof (intro allI impI)
  fix s c v assume rd: "readRow s c = Some v"
  then obtain r where c: "c = CArr r" and rv: "readVec s r = Some v"
    by (auto simp: readRow_def split: cell.splits)
  show "(\<forall>a\<in>fpRow s c. arrays s a \<noteq> None) \<and>
        (\<forall>s2. (\<forall>a\<in>fpRow s c. arrays s2 a = arrays s a) \<longrightarrow>
           readRow s2 c = Some v \<and> fpRow s2 c = fpRow s c)"
    using rv by (auto simp: c readRow_def fpRow_def fpVec_def readVec_def split: option.splits)
qed

lemma copier_copyRow: "copier copyRow readRow fpRow"
  unfolding copier_def
proof (intro allI impI)
  fix s c v assume wf: "wfStore s" and rd: "readRow s c = Some v"
  then obtain r where c: "c = CArr r" and rv: "readVec s r = Some v"
    by (auto simp: readRow_def split: cell.splits)
  from copier_step [OF copier_spread wf rv] obtain s' r' where
    "spread s r = Some (s', r')" "wfStore s'" "fresh s \<le> fresh s'"
    "\<forall>a<fresh s. arrays s' a = arrays s a" "readVec s' r' = Some v"
    "fpVec s' r' \<subseteq> {fresh s..<fresh s'}"
    by blast
  then show "\<exists>s' h'. copyRow s c = Some (s', h') \<and> wfStore s' \<and> fresh s \<le> fresh s' \<and>
              (\<forall>a<fresh s. arrays s' a = arrays s a) \<and>
              readRow s' h' = Some v \<and> fpRow s' h' \<subseteq> {fresh s..<fresh s'}"
    by (simp add: c copyRow_def readRow_def fpRow_def)
qed

lemma footprintOK_readArray:
  assumes ok: "footprintOK rd fp"
  shows "footprintOK (readArray rd) (fpArray fp)"
  unfolding footprintOK_def
proof (intro allI impI)
  fix s a vs assume rd: "readArray rd s a = Some vs"
  then obtain cs where cs: "arrays s a = Some cs" and th: "those (map (rd s) cs) = Some vs"
    by (auto simp: readArray_def split: option.splits)
  have el: "\<exists>v. rd s c = Some v" if "c \<in> set cs" for c
    using those_Some_mem [OF th that] .
  have fpa: "fpArray fp s a = insert a (\<Union> (set (map (fp s) cs)))"
    by (simp add: fpArray_def cs)
  have alloc: "\<forall>x\<in>fpArray fp s a. arrays s x \<noteq> None"
  proof
    fix x assume "x \<in> fpArray fp s a"
    then consider "x = a" | c where "c \<in> set cs" "x \<in> fp s c"
      unfolding fpa by auto
    then show "arrays s x \<noteq> None"
    proof cases
      case 1
      then show ?thesis using cs by simp
    next
      case 2
      from el [OF 2(1)] obtain v where "rd s c = Some v" ..
      with ok 2(2) show ?thesis unfolding footprintOK_def by blast
    qed
  qed
  have loc: "readArray rd s2 a = Some vs \<and> fpArray fp s2 a = fpArray fp s a"
    if agree: "\<forall>x\<in>fpArray fp s a. arrays s2 x = arrays s x" for s2
  proof -
    have cs2: "arrays s2 a = Some cs" using agree cs by (simp add: fpa)
    have each: "rd s2 c = rd s c \<and> fp s2 c = fp s c" if c: "c \<in> set cs" for c
    proof -
      from el [OF c] obtain v where v: "rd s c = Some v" ..
      have "\<forall>x\<in>fp s c. arrays s2 x = arrays s x" using agree c unfolding fpa by auto
      from footprintOK_keep [OF ok v this] v show ?thesis by simp
    qed
    have "those (map (rd s2) cs) = those (map (rd s) cs)"
      by (rule those_map_cong) (simp add: each)
    moreover have "map (fp s2) cs = map (fp s) cs" using each by simp
    ultimately show ?thesis using th cs2 by (simp add: readArray_def fpArray_def cs)
  qed
  show "(\<forall>x\<in>fpArray fp s a. arrays s x \<noteq> None) \<and>
        (\<forall>s2. (\<forall>x\<in>fpArray fp s a. arrays s2 x = arrays s x) \<longrightarrow>
           readArray rd s2 a = Some vs \<and> fpArray fp s2 a = fpArray fp s a)"
    using alloc loc by blast
qed

lemma copyElems_spec:
  assumes ok: "footprintOK rd fp" and cp: "copier cp rd fp"
  shows "wfStore s \<Longrightarrow> those (map (rd s) cs) = Some vs \<Longrightarrow>
         \<exists>s' cs'. copyElems cp s cs = Some (s', cs') \<and> wfStore s' \<and> fresh s \<le> fresh s' \<and>
           (\<forall>a<fresh s. arrays s' a = arrays s a) \<and>
           those (map (rd s') cs') = Some vs \<and>
           (\<forall>c'\<in>set cs'. fp s' c' \<subseteq> {fresh s..<fresh s'})"
proof (induction cs arbitrary: s vs)
  case Nil
  then show ?case by simp
next
  case (Cons c cs)
  from Cons.prems(2) obtain v vs0 where v: "rd s c = Some v"
    and vs0: "those (map (rd s) cs) = Some vs0" and vs: "vs = v # vs0"
    by (auto split: option.splits)
  from copier_step [OF cp Cons.prems(1) v] obtain s1 c' where
    c1: "cp s c = Some (s1, c')" and wf1: "wfStore s1" and fr1: "fresh s \<le> fresh s1"
    and ag1: "\<forall>a<fresh s. arrays s1 a = arrays s a" and rd1: "rd s1 c' = Some v"
    and fp1: "fp s1 c' \<subseteq> {fresh s..<fresh s1}"
    by blast
  have same: "rd s1 x = rd s x" if x: "x \<in> set cs" for x
  proof -
    from those_Some_mem [OF vs0 x] obtain w where w: "rd s x = Some w" ..
    from footprintOK_below(1) [OF ok w footprintOK_old [OF ok Cons.prems(1) w] ag1] w
    show ?thesis by simp
  qed
  have "those (map (rd s1) cs) = those (map (rd s) cs)"
    by (rule those_map_cong) (rule same)
  then have vs1: "those (map (rd s1) cs) = Some vs0" using vs0 by simp
  from Cons.IH [OF wf1 vs1] obtain s2 cs' where
    c2: "copyElems cp s1 cs = Some (s2, cs')" and wf2: "wfStore s2"
    and fr2: "fresh s1 \<le> fresh s2" and ag2: "\<forall>a<fresh s1. arrays s2 a = arrays s1 a"
    and rd2: "those (map (rd s2) cs') = Some vs0"
    and fp2: "\<forall>c'\<in>set cs'. fp s2 c' \<subseteq> {fresh s1..<fresh s2}"
    by blast
  have below1: "fp s1 c' \<subseteq> {..<fresh s1}" using fp1 by auto
  note k = footprintOK_below [OF ok rd1 below1 ag2]
  have a: "copyElems cp s (c # cs) = Some (s2, c' # cs')" using c1 c2 by simp
  have b: "\<forall>a<fresh s. arrays s2 a = arrays s a" using ag1 ag2 fr1 by auto
  have c: "those (map (rd s2) (c' # cs')) = Some vs" using k(1) rd2 vs by simp
  have d: "\<forall>x\<in>set (c' # cs'). fp s2 x \<subseteq> {fresh s..<fresh s2}"
  proof
    fix x assume "x \<in> set (c' # cs')"
    then consider "x = c'" | "x \<in> set cs'" by auto
    then show "fp s2 x \<subseteq> {fresh s..<fresh s2}"
    proof cases
      case 1
      then show ?thesis using k(2) fp1 fr2 by auto
    next
      case 2
      then show ?thesis using fp2 [rule_format, OF 2] fr1 by auto
    qed
  qed
  show ?case using a wf2 fr1 fr2 b c d by (intro exI [of _ s2] exI [of _ "c' # cs'"]) simp
qed

lemma mapArray_spec:
  assumes ok: "footprintOK rd fp" and cp: "copier cp rd fp"
    and wf: "wfStore s" and rd: "readArray rd s a = Some vs"
  obtains s' a' cs' where "mapArray cp s a = Some (s', a')" and "wfStore s'"
    and "fresh s' = Suc a'" and "fresh s \<le> a'" and "\<forall>x<fresh s. arrays s' x = arrays s x"
    and "arrays s' a' = Some cs'" and "those (map (rd s') cs') = Some vs"
    and "\<forall>c'\<in>set cs'. fp s' c' \<subseteq> {fresh s..<a'}"
proof -
  from rd obtain cs where cs: "arrays s a = Some cs" and th: "those (map (rd s) cs) = Some vs"
    by (auto simp: readArray_def split: option.splits)
  from copyElems_spec [OF ok cp wf th] obtain s1 cs' where
    c1: "copyElems cp s cs = Some (s1, cs')" and wf1: "wfStore s1" and fr1: "fresh s \<le> fresh s1"
    and ag1: "\<forall>x<fresh s. arrays s1 x = arrays s x"
    and rd1: "those (map (rd s1) cs') = Some vs"
    and fp1: "\<forall>c'\<in>set cs'. fp s1 c' \<subseteq> {fresh s..<fresh s1}"
    by blast
  define s' where "s' = fst (alloc s1 cs')"
  have m: "mapArray cp s a = Some (s', fresh s1)"
    by (simp add: mapArray_def cs c1 s'_def alloc_def)
  have wf': "wfStore s'" unfolding s'_def by (rule alloc_wf [OF wf1])
  have fr': "fresh s' = Suc (fresh s1)" by (simp add: s'_def alloc_fresh)
  have ag': "\<forall>x<fresh s1. arrays s' x = arrays s1 x" by (simp add: s'_def alloc_arrays)
  have arr: "arrays s' (fresh s1) = Some cs'" by (simp add: s'_def alloc_arrays)
  have each: "rd s' c' = rd s1 c' \<and> fp s' c' = fp s1 c'" if c': "c' \<in> set cs'" for c'
  proof -
    from those_Some_mem [OF rd1 c'] obtain w where w: "rd s1 c' = Some w" ..
    have "fp s1 c' \<subseteq> {..<fresh s1}" using fp1 [rule_format, OF c'] by auto
    from footprintOK_below [OF ok w this ag'] w show ?thesis by simp
  qed
  have "those (map (rd s') cs') = those (map (rd s1) cs')"
    by (rule those_map_cong) (simp add: each)
  then have rd': "those (map (rd s') cs') = Some vs" using rd1 by simp
  have fp': "\<forall>c'\<in>set cs'. fp s' c' \<subseteq> {fresh s..<fresh s1}" using each fp1 by simp
  have ag: "\<forall>x<fresh s. arrays s' x = arrays s x" using ag1 ag' fr1 by auto
  show ?thesis using that [OF m wf' fr' fr1 ag arr rd' fp'] .
qed

lemma copier_mapArray:
  assumes ok: "footprintOK rd fp" and cp: "copier cp rd fp"
  shows "copier (mapArray cp) (readArray rd) (fpArray fp)"
  unfolding copier_def
proof (intro allI impI)
  fix s a vs assume wf: "wfStore s" and rd: "readArray rd s a = Some vs"
  from mapArray_spec [OF ok cp wf rd] obtain s' a' cs' where
    m: "mapArray cp s a = Some (s', a')" "wfStore s'" "fresh s' = Suc a'" "fresh s \<le> a'"
      "\<forall>x<fresh s. arrays s' x = arrays s x" "arrays s' a' = Some cs'"
      "those (map (rd s') cs') = Some vs" "\<forall>c'\<in>set cs'. fp s' c' \<subseteq> {fresh s..<a'}"
    by blast
  have r: "readArray rd s' a' = Some vs" using m(6,7) by (simp add: readArray_def)
  have "fp s' c' \<subseteq> {fresh s..<fresh s'}" if "c' \<in> set cs'" for c'
    using m(8) [rule_format, OF that] m(3) by auto
  then have f: "fpArray fp s' a' \<subseteq> {fresh s..<fresh s'}"
    using m(3,4,6) by (auto simp: fpArray_def)
  show "\<exists>s' h'. mapArray cp s a = Some (s', h') \<and> wfStore s' \<and> fresh s \<le> fresh s' \<and>
          (\<forall>a<fresh s. arrays s' a = arrays s a) \<and>
          readArray rd s' h' = Some vs \<and> fpArray fp s' h' \<subseteq> {fresh s..<fresh s'}"
    using m(1,2,3,4,5) r f by (intro exI [of _ s'] exI [of _ a']) simp
qed

lemma footprintOK_readMatrix: "footprintOK readMatrix fpMatrix"
  unfolding readMatrix_def fpMatrix_def
  by (rule footprintOK_readArray [OF footprintOK_readRow])

lemma copier_copyMatrix: "copier copyMatrix readMatrix fpMatrix"
  unfolding copyMatrix_def readMatrix_def fpMatrix_def
  by (rule copier_mapArray [OF footprintOK_readRow copier_copyRow])

lemma footprintOK_range:
  assumes "footprintOK rd fp" and "rd s h = Some v" and "fp s h \<subseteq> {lo..<hi}"
    and "\<forall>a<n. arrays s2 a = arrays s a" and "hi \<le> n"
  shows "rd s2 h = Some v" and "fp s2 h \<subseteq> {lo..<hi}"
proof -
  have b: "fp s h \<subseteq> {..<n}" using assms(3,5) by auto
  from footprintOK_below [OF assms(1,2) b assms(4)] assms(3)
  show "rd s2 h = Some v" and "fp s2 h \<subseteq> {lo..<hi}" by simp_all
qed

lemma footprintOK_kept:
  assumes "footprintOK rd fp" and "wfStore s" and "rd s h = Some v"
    and "\<forall>a<fresh s. arrays s2 a = arrays s a"
  shows "rd s2 h = Some v" and "fp s2 h = fp s h"
  using footprintOK_below [OF assms(1,3) footprintOK_old [OF assms(1,2,3)] assms(4)] by simp_all

lemma footprintOK_allocated:
  assumes "footprintOK rd fp" and "rd s h = Some v" and "a \<in> fp s h"
  shows "arrays s a \<noteq> None"
  using assms unfolding footprintOK_def by blast

lemma footprintOK_readHead: "footprintOK readHead fpHead"
  unfolding footprintOK_def
proof (intro allI impI)
  fix s c hd assume rd: "readHead s c = Some hd"
  then obtain q k v mq mk mv where c: "c = CHead q k v"
    and q: "readMatrix s q = Some mq" and k: "readMatrix s k = Some mk"
    and v: "readMatrix s v = Some mv" and hd: "hd = \<lparr>Wq = mq, Wk = mk, Wv = mv\<rparr>"
    by (auto simp: readHead_def split: cell.splits option.splits)
  note ok = footprintOK_readMatrix
  have fp: "fpHead s c = fpMatrix s q \<union> fpMatrix s k \<union> fpMatrix s v"
    by (simp add: fpHead_def c)
  have al: "\<forall>a\<in>fpHead s c. arrays s a \<noteq> None"
    unfolding fp
    using footprintOK_allocated [OF ok q] footprintOK_allocated [OF ok k]
      footprintOK_allocated [OF ok v]
    by blast
  have loc: "readHead s2 c = Some hd \<and> fpHead s2 c = fpHead s c"
    if ag: "\<forall>a\<in>fpHead s c. arrays s2 a = arrays s a" for s2
  proof -
    have "\<forall>a\<in>fpMatrix s q. arrays s2 a = arrays s a" using ag unfolding fp by blast
    note kq = footprintOK_keep [OF ok q this]
    have "\<forall>a\<in>fpMatrix s k. arrays s2 a = arrays s a" using ag unfolding fp by blast
    note kk = footprintOK_keep [OF ok k this]
    have "\<forall>a\<in>fpMatrix s v. arrays s2 a = arrays s a" using ag unfolding fp by blast
    note kv = footprintOK_keep [OF ok v this]
    show ?thesis using kq kk kv by (simp add: readHead_def fpHead_def c hd)
  qed
  show "(\<forall>a\<in>fpHead s c. arrays s a \<noteq> None) \<and>
        (\<forall>s2. (\<forall>a\<in>fpHead s c. arrays s2 a = arrays s a) \<longrightarrow>
           readHead s2 c = Some hd \<and> fpHead s2 c = fpHead s c)"
    using al loc by blast
qed

lemma copier_copyHead: "copier copyHead readHead fpHead"
  unfolding copier_def
proof (intro allI impI)
  fix s c hd assume wf: "wfStore s" and rd: "readHead s c = Some hd"
  then obtain q k v mq mk mv where c: "c = CHead q k v"
    and q: "readMatrix s q = Some mq" and k: "readMatrix s k = Some mk"
    and v: "readMatrix s v = Some mv" and hd: "hd = \<lparr>Wq = mq, Wk = mk, Wv = mv\<rparr>"
    by (auto simp: readHead_def split: cell.splits option.splits)
  note ok = footprintOK_readMatrix and cp = copier_copyMatrix
  from copier_step [OF cp wf q] obtain s1 q' where
    c1: "copyMatrix s q = Some (s1, q')" and wf1: "wfStore s1" and fr1: "fresh s \<le> fresh s1"
    and ag1: "\<forall>a<fresh s. arrays s1 a = arrays s a" and q1: "readMatrix s1 q' = Some mq"
    and fq1: "fpMatrix s1 q' \<subseteq> {fresh s..<fresh s1}"
    by blast
  note k1 = footprintOK_kept(1) [OF ok wf k ag1]
  note v1 = footprintOK_kept(1) [OF ok wf v ag1]
  from copier_step [OF cp wf1 k1] obtain s2 k' where
    c2: "copyMatrix s1 k = Some (s2, k')" and wf2: "wfStore s2" and fr2: "fresh s1 \<le> fresh s2"
    and ag2: "\<forall>a<fresh s1. arrays s2 a = arrays s1 a" and k2: "readMatrix s2 k' = Some mk"
    and fk2: "fpMatrix s2 k' \<subseteq> {fresh s1..<fresh s2}"
    by blast
  note v2 = footprintOK_kept(1) [OF ok wf1 v1 ag2]
  note q2 = footprintOK_range [OF ok q1 fq1 ag2 order_refl]
  from copier_step [OF cp wf2 v2] obtain s3 v' where
    c3: "copyMatrix s2 v = Some (s3, v')" and wf3: "wfStore s3" and fr3: "fresh s2 \<le> fresh s3"
    and ag3: "\<forall>a<fresh s2. arrays s3 a = arrays s2 a" and v3: "readMatrix s3 v' = Some mv"
    and fv3: "fpMatrix s3 v' \<subseteq> {fresh s2..<fresh s3}"
    by blast
  note q3 = footprintOK_range [OF ok q2 ag3 fr2]
  note k3 = footprintOK_range [OF ok k2 fk2 ag3 order_refl]
  have a: "copyHead s c = Some (s3, CHead q' k' v')" by (simp add: copyHead_def c c1 c2 c3)
  have b: "\<forall>a<fresh s. arrays s3 a = arrays s a" using ag1 ag2 ag3 fr1 fr2 by auto
  have r: "readHead s3 (CHead q' k' v') = Some hd" by (simp add: readHead_def q3 k3 v3 hd)
  have f: "fpHead s3 (CHead q' k' v') \<subseteq> {fresh s..<fresh s3}"
    using q3(2) k3(2) fv3 fr1 fr2 fr3 by (auto simp: fpHead_def)
  show "\<exists>s' h'. copyHead s c = Some (s', h') \<and> wfStore s' \<and> fresh s \<le> fresh s' \<and>
          (\<forall>a<fresh s. arrays s' a = arrays s a) \<and>
          readHead s' h' = Some hd \<and> fpHead s' h' \<subseteq> {fresh s..<fresh s'}"
    using a wf3 fr1 fr2 fr3 b r f by (intro exI [of _ s3] exI [of _ "CHead q' k' v'"]) simp
qed

lemma footprintOK_readHeads: "footprintOK readHeads fpHeads"
  unfolding readHeads_def fpHeads_def
  by (rule footprintOK_readArray [OF footprintOK_readHead])

lemma copier_copyHeads: "copier copyHeads readHeads fpHeads"
  unfolding copyHeads_def readHeads_def fpHeads_def
  by (rule copier_mapArray [OF footprintOK_readHead copier_copyHead])

lemma footprintOK_readLayer: "footprintOK readLayer fpLayer"
  unfolding footprintOK_def
proof (intro allI impI)
  fix s c ly assume rd: "readLayer s c = Some ly"
  then obtain hs w1 v1 w2 v2 mh m1 x1 m2 x2 where c: "c = CLayer hs w1 v1 w2 v2"
    and h: "readHeads s hs = Some mh" and a1: "readMatrix s w1 = Some m1"
    and e1: "readVec s v1 = Some x1" and a2: "readMatrix s w2 = Some m2"
    and e2: "readVec s v2 = Some x2"
    and ly: "ly = \<lparr>attention = \<lparr>heads = mh\<rparr>, ffn = \<lparr>W1 = m1, b1 = x1, W2 = m2, b2 = x2\<rparr>\<rparr>"
    by (auto simp: readLayer_def split: cell.splits option.splits)
  note okh = footprintOK_readHeads and okm = footprintOK_readMatrix and okv = footprintOK_readVec
  have fp: "fpLayer s c = fpHeads s hs \<union> fpMatrix s w1 \<union> fpVec s v1 \<union> fpMatrix s w2 \<union> fpVec s v2"
    by (simp add: fpLayer_def c)
  have al: "\<forall>a\<in>fpLayer s c. arrays s a \<noteq> None"
    unfolding fp
    using footprintOK_allocated [OF okh h] footprintOK_allocated [OF okm a1]
      footprintOK_allocated [OF okv e1] footprintOK_allocated [OF okm a2]
      footprintOK_allocated [OF okv e2]
    by blast
  have loc: "readLayer s2 c = Some ly \<and> fpLayer s2 c = fpLayer s c"
    if ag: "\<forall>a\<in>fpLayer s c. arrays s2 a = arrays s a" for s2
  proof -
    have "\<forall>a\<in>fpHeads s hs. arrays s2 a = arrays s a" using ag unfolding fp by blast
    note k0 = footprintOK_keep [OF okh h this]
    have "\<forall>a\<in>fpMatrix s w1. arrays s2 a = arrays s a" using ag unfolding fp by blast
    note k1 = footprintOK_keep [OF okm a1 this]
    have "\<forall>a\<in>fpVec s v1. arrays s2 a = arrays s a" using ag unfolding fp by blast
    note k2 = footprintOK_keep [OF okv e1 this]
    have "\<forall>a\<in>fpMatrix s w2. arrays s2 a = arrays s a" using ag unfolding fp by blast
    note k3 = footprintOK_keep [OF okm a2 this]
    have "\<forall>a\<in>fpVec s v2. arrays s2 a = arrays s a" using ag unfolding fp by blast
    note k4 = footprintOK_keep [OF okv e2 this]
    show ?thesis using k0 k1 k2 k3 k4 by (simp add: readLayer_def fpLayer_def c ly)
  qed
  show "(\<forall>a\<in>fpLayer s c. arrays s a \<noteq> None) \<and>
        (\<forall>s2. (\<forall>a\<in>fpLayer s c. arrays s2 a = arrays s a) \<longrightarrow>
           readLayer s2 c = Some ly \<and> fpLayer s2 c = fpLayer s c)"
    using al loc by blast
qed

lemma copier_copyLayer: "copier copyLayer readLayer fpLayer"
  unfolding copier_def
proof (intro allI impI)
  fix s c ly assume wf: "wfStore s" and rd: "readLayer s c = Some ly"
  then obtain hs w1 v1 w2 v2 mh m1 x1 m2 x2 where c: "c = CLayer hs w1 v1 w2 v2"
    and h: "readHeads s hs = Some mh" and a1: "readMatrix s w1 = Some m1"
    and e1: "readVec s v1 = Some x1" and a2: "readMatrix s w2 = Some m2"
    and e2: "readVec s v2 = Some x2"
    and ly: "ly = \<lparr>attention = \<lparr>heads = mh\<rparr>, ffn = \<lparr>W1 = m1, b1 = x1, W2 = m2, b2 = x2\<rparr>\<rparr>"
    by (auto simp: readLayer_def split: cell.splits option.splits)
  note okh = footprintOK_readHeads and okm = footprintOK_readMatrix and okv = footprintOK_readVec
  from copier_step [OF copier_copyHeads wf h] obtain s1 hs' where
    c1: "copyHeads s hs = Some (s1, hs')" and wf1: "wfStore s1" and fr1: "fresh s \<le> fresh s1"
    and ag1: "\<forall>a<fresh s. arrays s1 a = arrays s a" and h1: "readHeads s1 hs' = Some mh"
    and fh1: "fpHeads s1 hs' \<subseteq> {fresh s..<fresh s1}"
    by blast
  note a1_1 = footprintOK_kept(1) [OF okm wf a1 ag1]
  note e1_1 = footprintOK_kept(1) [OF okv wf e1 ag1]
  note a2_1 = footprintOK_kept(1) [OF okm wf a2 ag1]
  note e2_1 = footprintOK_kept(1) [OF okv wf e2 ag1]
  from copier_step [OF copier_copyMatrix wf1 a1_1] obtain s2 w1' where
    c2: "copyMatrix s1 w1 = Some (s2, w1')" and wf2: "wfStore s2" and fr2: "fresh s1 \<le> fresh s2"
    and ag2: "\<forall>a<fresh s1. arrays s2 a = arrays s1 a" and a1_2: "readMatrix s2 w1' = Some m1"
    and fa1_2: "fpMatrix s2 w1' \<subseteq> {fresh s1..<fresh s2}"
    by blast
  note h2 = footprintOK_range [OF okh h1 fh1 ag2 order_refl]
  note e1_2 = footprintOK_kept(1) [OF okv wf1 e1_1 ag2]
  note a2_2 = footprintOK_kept(1) [OF okm wf1 a2_1 ag2]
  note e2_2 = footprintOK_kept(1) [OF okv wf1 e2_1 ag2]
  from copier_step [OF copier_spread wf2 e1_2] obtain s3 v1' where
    c3: "spread s2 v1 = Some (s3, v1')" and wf3: "wfStore s3" and fr3: "fresh s2 \<le> fresh s3"
    and ag3: "\<forall>a<fresh s2. arrays s3 a = arrays s2 a" and e1_3: "readVec s3 v1' = Some x1"
    and fe1_3: "fpVec s3 v1' \<subseteq> {fresh s2..<fresh s3}"
    by blast
  note h3 = footprintOK_range [OF okh h2 ag3 fr2]
  note a1_3 = footprintOK_range [OF okm a1_2 fa1_2 ag3 order_refl]
  note a2_3 = footprintOK_kept(1) [OF okm wf2 a2_2 ag3]
  note e2_3 = footprintOK_kept(1) [OF okv wf2 e2_2 ag3]
  from copier_step [OF copier_copyMatrix wf3 a2_3] obtain s4 w2' where
    c4: "copyMatrix s3 w2 = Some (s4, w2')" and wf4: "wfStore s4" and fr4: "fresh s3 \<le> fresh s4"
    and ag4: "\<forall>a<fresh s3. arrays s4 a = arrays s3 a" and a2_4: "readMatrix s4 w2' = Some m2"
    and fa2_4: "fpMatrix s4 w2' \<subseteq> {fresh s3..<fresh s4}"
    by blast
  have fr13: "fresh s1 \<le> fresh s3" using fr2 fr3 by simp
  note h4 = footprintOK_range [OF okh h3 ag4 fr13]
  note a1_4 = footprintOK_range [OF okm a1_3 ag4 fr3]
  note e1_4 = footprintOK_range [OF okv e1_3 fe1_3 ag4 order_refl]
  note e2_4 = footprintOK_kept(1) [OF okv wf3 e2_3 ag4]
  from copier_step [OF copier_spread wf4 e2_4] obtain s5 v2' where
    c5: "spread s4 v2 = Some (s5, v2')" and wf5: "wfStore s5" and fr5: "fresh s4 \<le> fresh s5"
    and ag5: "\<forall>a<fresh s4. arrays s5 a = arrays s4 a" and e2_5: "readVec s5 v2' = Some x2"
    and fe2_5: "fpVec s5 v2' \<subseteq> {fresh s4..<fresh s5}"
    by blast
  have fr14: "fresh s1 \<le> fresh s4" using fr13 fr4 by simp
  have fr24: "fresh s2 \<le> fresh s4" using fr3 fr4 by simp
  note h5 = footprintOK_range [OF okh h4 ag5 fr14]
  note a1_5 = footprintOK_range [OF okm a1_4 ag5 fr24]
  note e1_5 = footprintOK_range [OF okv e1_4 ag5 fr4]
  note a2_5 = footprintOK_range [OF okm a2_4 fa2_4 ag5 order_refl]
  have a: "copyLayer s c = Some (s5, CLayer hs' w1' v1' w2' v2')"
    by (simp add: copyLayer_def c c1 c2 c3 c4 c5)
  have b: "\<forall>a<fresh s. arrays s5 a = arrays s a"
    using ag1 ag2 ag3 ag4 ag5 fr1 fr2 fr3 fr4 by auto
  have r: "readLayer s5 (CLayer hs' w1' v1' w2' v2') = Some ly"
    by (simp add: readLayer_def h5 a1_5 e1_5 a2_5 e2_5 ly)
  have f: "fpLayer s5 (CLayer hs' w1' v1' w2' v2') \<subseteq> {fresh s..<fresh s5}"
    using h5(2) a1_5(2) e1_5(2) a2_5(2) fe2_5 fr1 fr2 fr3 fr4 fr5 by (auto simp: fpLayer_def)
  have fr: "fresh s \<le> fresh s5" using fr1 fr2 fr3 fr4 fr5 by simp
  show "\<exists>s' h'. copyLayer s c = Some (s', h') \<and> wfStore s' \<and> fresh s \<le> fresh s' \<and>
          (\<forall>a<fresh s. arrays s' a = arrays s a) \<and>
          readLayer s' h' = Some ly \<and> fpLayer s' h' \<subseteq> {fresh s..<fresh s'}"
    using a wf5 fr b r f by (intro exI [of _ s5] exI [of _ "CLayer hs' w1' v1' w2' v2'"]) simp
qed

lemma footprintOK_readLayers: "footprintOK readLayers fpLayers"
  unfolding readLayers_def fpLayers_def
  by (rule footprintOK_readArray [OF footprintOK_readLayer])

lemma copier_copyLayers: "copier copyLayers readLayers fpLayers"
  unfolding copyLayers_def readLayers_def fpLayers_def
  by (rule copier_mapArray [OF footprintOK_readLayer copier_copyLayer])

text \<open>The rows of a copied matrix are the addresses handed out during the copy, in order.\<close>

lemma copyRows_addrs:
  "copyElems copyRow s cs = Some (s', cs') \<Longrightarrow>
   cs' = map CArr [fresh s..<fresh s + length cs] \<and> fresh s' = fresh s + length cs"
proof (induction cs arbitrary: s s' cs')
  case Nil
  then show ?case by simp
next
  case (Cons c cs)
  from Cons.prems obtain s1 c1 s2 cs2 where c1: "copyRow s c = Some (s1, c1)"
    and c2: "copyElems copyRow s1 cs = Some (s2, cs2)" and e: "s' = s2" "cs' = c1 # cs2"
    by (auto split: option.splits)
  from c1 have f1: "c1 = CArr (fresh s)" "fresh s1 = Suc (fresh s)"
    by (auto simp: copyRow_def spread_def alloc_def split: cell.splits option.splits)
  from Cons.IH [OF c2] have i: "cs2 = map CArr [fresh s1..<fresh s1 + length cs]"
    "fresh s2 = fresh s1 + length cs" by simp_all
  have u: "[fresh s..<fresh s + length (c # cs)] = fresh s # [fresh s1..<fresh s1 + length cs]"
    using f1(2) by (simp add: upt_conv_Cons del: upt_Suc)
  show ?case unfolding u using i f1 e by simp
qed

lemma copyMatrix_shape:
  assumes "copyMatrix s a = Some (s', a')"
  shows "arrays s' a' = Some (map CArr [fresh s..<a']) \<and> fresh s \<le> a' \<and> fresh s' = Suc a'"
proof -
  from assms obtain cs s1 cs' where cs: "arrays s a = Some cs"
    and c: "copyElems copyRow s cs = Some (s1, cs')" and e: "(s', a') = alloc s1 cs'"
    by (auto simp: copyMatrix_def mapArray_def split: option.splits)
  from copyRows_addrs [OF c] e show ?thesis by (auto simp: alloc_def)
qed

lemma those_eq_Some: "those xs = Some vs \<longleftrightarrow> xs = map Some vs"
proof (induction xs arbitrary: vs)
  case Nil
  show ?case by auto
next
  case (Cons x xs)
  show ?case
  proof (cases x)
    case None
    then show ?thesis by auto
  next
    case (Some v)
    show ?thesis
    proof (cases "those xs")
      case None
      with Cons.IH Some show ?thesis by (cases vs) auto
    next
      case (Some ws)
      with Cons.IH [of ws] \<open>x = Some v\<close> show ?thesis by (cases vs) (auto simp: Cons.IH)
    qed
  qed
qed

lemma cellNum_eq: "cellNum c = Some x \<longleftrightarrow> c = CNum x"
  by (cases c) (auto simp: cellNum_def)

lemma cells_numbers: "map cellNum cs = map Some xs \<longleftrightarrow> cs = map CNum xs"
proof (induction cs arbitrary: xs)
  case Nil
  show ?case by auto
next
  case (Cons c cs)
  show ?case by (cases xs) (auto simp: Cons.IH cellNum_eq)
qed

lemma readVec_eq: "readVec s a = Some xs \<longleftrightarrow> arrays s a = Some (map CNum xs)"
  by (auto simp: readVec_def those_eq_Some cells_numbers split: option.splits)

lemma readMatrix_rows:
  assumes "arrays s m = Some (map CArr rs)"
  shows "readMatrix s m = Some M \<longleftrightarrow>
         length M = length rs \<and> (\<forall>i<length rs. arrays s (rs ! i) = Some (map CNum (M ! i)))"
proof -
  have "readMatrix s m = Some M \<longleftrightarrow> map (readVec s) rs = map Some M"
    using assms by (simp add: readMatrix_def readArray_def those_eq_Some comp_def readRow_def)
  also have "\<dots> \<longleftrightarrow> length M = length rs \<and> (\<forall>i<length rs. readVec s (rs ! i) = Some (M ! i))"
    by (auto simp: list_eq_iff_nth_eq)
  finally show ?thesis by (simp add: readVec_eq)
qed

lemma matrixAt_read: "matrixAt s m rs M \<Longrightarrow> readMatrix s m = Some M"
  using readMatrix_rows [of s m rs M] by (simp add: matrixAt_def)

lemma matrixAt_of_read:
  "arrays s m = Some (map CArr rs) \<Longrightarrow> readMatrix s m = Some M \<Longrightarrow> distinct rs \<Longrightarrow>
   m \<notin> set rs \<Longrightarrow> matrixAt s m rs M"
  using readMatrix_rows [of s m rs M] by (simp add: matrixAt_def)

lemma bumpArray_numbers:
  "arrays s a = Some (map CNum xs) \<Longrightarrow>
   bumpArray s a i delta = Inr (s\<lparr>arrays := (arrays s)(a \<mapsto> map CNum (bumpAt xs i delta))\<rparr>)"
  using readVec_eq [of s a xs] by (simp add: bumpArray_def)

lemma bumpEntry_matrixAt:
  assumes m: "matrixAt s m rs M"
  shows "bumpEntry s m d v delta =
           (if d < length M
            then Inr (s\<lparr>arrays := (arrays s)(rs ! d \<mapsto> map CNum (bumpAt (M ! d) v delta))\<rparr>)
            else Inl (Thrown TypeError))"
proof (cases "d < length M")
  case True
  then have d: "d < length rs" using m by (simp add: matrixAt_def)
  then have "arrays s (rs ! d) = Some (map CNum (M ! d))" using m by (simp add: matrixAt_def)
  from bumpArray_numbers [OF this] d True m show ?thesis
    by (simp add: bumpEntry_def matrixAt_def)
next
  case False
  then show ?thesis using m by (simp add: bumpEntry_def matrixAt_def)
qed

lemma matrixAt_update:
  assumes m: "matrixAt s m rs M" and d: "d < length M"
  shows "matrixAt (s\<lparr>arrays := (arrays s)(rs ! d \<mapsto> map CNum row)\<rparr>) m rs (M[d := row])"
proof -
  have dr: "d < length rs" using m d by (simp add: matrixAt_def)
  have ne: "rs ! d \<noteq> m" using m dr by (metis matrixAt_def nth_mem)
  have di: "distinct rs" using m by (simp add: matrixAt_def)
  have rows: "arrays (s\<lparr>arrays := (arrays s)(rs ! d \<mapsto> map CNum row)\<rparr>) (rs ! i)
                = Some (map CNum (M[d := row] ! i))" if i: "i < length rs" for i
  proof (cases "i = d")
    case True
    then show ?thesis using d by simp
  next
    case False
    then have "rs ! i \<noteq> rs ! d" using di i dr by (simp add: nth_eq_iff_index_eq)
    then show ?thesis using m i False by (simp add: matrixAt_def)
  qed
  show ?thesis
    unfolding matrixAt_def using m ne rows by (simp add: matrixAt_def)
qed

text \<open>An array outside the rows of a matrix keeps its content when an entry is updated.\<close>

lemma matrixAt_frame:
  assumes "matrixAt s m rs M" and "set rs \<inter> A = {}" and "m \<notin> A"
    and "\<forall>a. a \<notin> A \<longrightarrow> arrays s2 a = arrays s a"
  shows "matrixAt s2 m rs M"
proof -
  have "rs ! i \<notin> A" if "i < length rs" for i using assms(2) that by (meson disjoint_iff nth_mem)
  then show ?thesis using assms by (simp add: matrixAt_def)
qed

text \<open>
  The loops on the store do what the loops on values do: the outcome is the same, only
  rows of the matrix change, and after a loop that returns the store holds the matrix the
  loop on values returns.
\<close>

lemma updateColumnS_sim:
  assumes "matrixAt s m rs M"
  shows "\<exists>s'. updateColumnS v lr err h ds m s
                = (map_sum Thrown (\<lambda>_. ()) (updateColumn v lr err h ds M), s') \<and>
           fresh s' = fresh s \<and> (\<forall>a. a \<notin> set rs \<longrightarrow> arrays s' a = arrays s a) \<and>
           (\<forall>M'. updateColumn v lr err h ds M = Inr M' \<longrightarrow> matrixAt s' m rs M')"
  using assms
proof (induction ds arbitrary: s M)
  case Nil
  then show ?case by simp
next
  case (Cons d ds)
  show ?case
  proof (cases "d < length M")
    case False
    then show ?thesis using bumpEntry_matrixAt [OF Cons.prems] by simp
  next
    case True
    define row where "row = bumpAt (M ! d) v (nmul (nmul lr err) (h ! d))"
    define s1 where "s1 = s\<lparr>arrays := (arrays s)(rs ! d \<mapsto> map CNum row)\<rparr>"
    have be: "bumpEntry s m d v (nmul (nmul lr err) (h ! d)) = Inr s1"
      using bumpEntry_matrixAt [OF Cons.prems] True by (simp add: s1_def row_def)
    have m1: "matrixAt s1 m rs (M[d := row])"
      unfolding s1_def by (rule matrixAt_update [OF Cons.prems True])
    have dr: "rs ! d \<in> set rs" using Cons.prems True by (simp add: matrixAt_def)
    have fr: "fresh s1 = fresh s" by (simp add: s1_def)
    have ag: "\<forall>a. a \<notin> set rs \<longrightarrow> arrays s1 a = arrays s a" using dr by (auto simp: s1_def)
    have p: "updateColumn v lr err h (d # ds) M = updateColumn v lr err h ds (M[d := row])"
      using True by (simp add: row_def)
    have q: "updateColumnS v lr err h (d # ds) m s = updateColumnS v lr err h ds m s1"
      using be by simp
    from Cons.IH [OF m1] obtain s' where
      "updateColumnS v lr err h ds m s1
         = (map_sum Thrown (\<lambda>_. ()) (updateColumn v lr err h ds (M[d := row])), s')"
      "fresh s' = fresh s1" "\<forall>a. a \<notin> set rs \<longrightarrow> arrays s' a = arrays s1 a"
      "\<forall>M'. updateColumn v lr err h ds (M[d := row]) = Inr M' \<longrightarrow> matrixAt s' m rs M'"
      by blast
    then show ?thesis
      unfolding p q using fr ag by (intro exI [of _ s']) simp
  qed
qed

lemma updateOutputS_sim:
  assumes "matrixAt s (outputWRef nw) rsW Wm"
    and "arrays s (outputbRef nw) = Some (map CNum bvec)"
    and "outputbRef nw \<notin> set rsW" and "outputWRef nw \<noteq> outputbRef nw"
  shows "\<exists>s'. updateOutputS target lr probs lastHidden vs nw s
                = (map_sum Thrown (\<lambda>_. ())
                     (updateOutput target lr probs lastHidden vs \<lparr>W = Wm, b = bvec\<rparr>), s') \<and>
           fresh s' = fresh s \<and>
           (\<forall>a. a \<notin> insert (outputbRef nw) (set rsW) \<longrightarrow> arrays s' a = arrays s a) \<and>
           (\<forall>out. updateOutput target lr probs lastHidden vs \<lparr>W = Wm, b = bvec\<rparr> = Inr out \<longrightarrow>
              matrixAt s' (outputWRef nw) rsW (W out) \<and>
              arrays s' (outputbRef nw) = Some (map CNum (b out)))"
  using assms(1,2)
proof (induction vs arbitrary: s Wm bvec)
  case Nil
  then show ?case by simp
next
  case (Cons v vs)
  define err where "err = nsub (Number (if int v = target then 1 else 0)) (probs ! v)"
  show ?case
  proof (cases lastHidden)
    case None
    then show ?thesis by simp
  next
    case (Some h)
    from updateColumnS_sim [OF Cons.prems(1), of v lr err h "[0..<length h]"]
    obtain s1 where
      c1: "updateColumnS v lr err h [0..<length h] (outputWRef nw) s
             = (map_sum Thrown (\<lambda>_. ()) (updateColumn v lr err h [0..<length h] Wm), s1)"
      and fr1: "fresh s1 = fresh s"
      and ag1: "\<forall>a. a \<notin> set rsW \<longrightarrow> arrays s1 a = arrays s a"
      and m1: "\<forall>M'. updateColumn v lr err h [0..<length h] Wm = Inr M' \<longrightarrow>
                 matrixAt s1 (outputWRef nw) rsW M'"
      by blast
    show ?thesis
    proof (cases "updateColumn v lr err h [0..<length h] Wm")
      case (Inl e)
      have "updateOutputS target lr probs lastHidden (v # vs) nw s = (Inl (Thrown e), s1)"
        using Some c1 Inl by (simp add: err_def Let_def)
      moreover have "updateOutput target lr probs lastHidden (v # vs) \<lparr>W = Wm, b = bvec\<rparr> = Inl e"
        using Some Inl by (simp add: err_def Let_def)
      ultimately show ?thesis using fr1 ag1 by (intro exI [of _ s1]) simp
    next
      case (Inr M1)
      have m1': "matrixAt s1 (outputWRef nw) rsW M1" using m1 Inr by simp
      have b1: "arrays s1 (outputbRef nw) = Some (map CNum bvec)"
        using ag1 assms(3) Cons.prems(2) by simp
      define bnew where "bnew = bumpAt bvec v (nmul lr err)"
      define s2 where "s2 = s1\<lparr>arrays := (arrays s1)(outputbRef nw \<mapsto> map CNum bnew)\<rparr>"
      have c2: "bumpArray s1 (outputbRef nw) v (nmul lr err) = Inr s2"
        using bumpArray_numbers [OF b1] by (simp add: s2_def bnew_def)
      have m2: "matrixAt s2 (outputWRef nw) rsW M1"
        by (rule matrixAt_frame [OF m1', of "{outputbRef nw}"]) (use assms(3,4) in \<open>auto simp: s2_def\<close>)
      have b2: "arrays s2 (outputbRef nw) = Some (map CNum bnew)" by (simp add: s2_def)
      have fr2: "fresh s2 = fresh s" using fr1 by (simp add: s2_def)
      have ag2: "\<forall>a. a \<notin> insert (outputbRef nw) (set rsW) \<longrightarrow> arrays s2 a = arrays s a"
        using ag1 by (simp add: s2_def)
      have p: "updateOutput target lr probs lastHidden (v # vs) \<lparr>W = Wm, b = bvec\<rparr>
               = updateOutput target lr probs lastHidden vs \<lparr>W = M1, b = bnew\<rparr>"
        using Some Inr by (simp add: err_def bnew_def Let_def)
      have q: "updateOutputS target lr probs lastHidden (v # vs) nw s
               = updateOutputS target lr probs lastHidden vs nw s2"
        using Some c1 c2 Inr by (simp add: err_def Let_def)
      from Cons.IH [OF m2 b2] obtain s' where
        "updateOutputS target lr probs lastHidden vs nw s2
           = (map_sum Thrown (\<lambda>_. ())
                (updateOutput target lr probs lastHidden vs \<lparr>W = M1, b = bnew\<rparr>), s')"
        "fresh s' = fresh s2"
        "\<forall>a. a \<notin> insert (outputbRef nw) (set rsW) \<longrightarrow> arrays s' a = arrays s2 a"
        "\<forall>out. updateOutput target lr probs lastHidden vs \<lparr>W = M1, b = bnew\<rparr> = Inr out \<longrightarrow>
              matrixAt s' (outputWRef nw) rsW (W out) \<and>
              arrays s' (outputbRef nw) = Some (map CNum (b out))"
        by blast
      then show ?thesis
        unfolding p q using fr2 ag2 by (intro exI [of _ s']) simp
    qed
  qed
qed

lemma perturbRowS_sim:
  assumes "matrixAt s m rs E" and "t < length E" and "length (E ! t) = n" and "k \<le> n"
  shows "\<exists>s'. perturbRowS lr m t [k..<n] g s = (Inr (\<lambda>i. g (i + (n - k))), s') \<and>
           matrixAt s' m rs
             (E[t := map (\<lambda>d. if d < k then E ! t ! d
                               else nadd (E ! t ! d)
                                      (nmul (nmul lr (Number (g (d - k) - 1 / 2))) (Number (1 / 10))))
                      [0..<n]]) \<and>
           fresh s' = fresh s \<and> (\<forall>a. a \<notin> set rs \<longrightarrow> arrays s' a = arrays s a)"
  using assms
proof (induction "n - k" arbitrary: k g s E)
  case 0
  then have kn: "k = n" by simp
  have "map (\<lambda>d. if d < n then E ! t ! d
                  else nadd (E ! t ! d) (nmul (nmul lr (Number (g (d - n) - 1 / 2))) (Number (1 / 10))))
          [0..<n] = E ! t"
    using 0(4) by (intro nth_equalityI) simp_all
  then have "E[t := map (\<lambda>d. if d < n then E ! t ! d
                  else nadd (E ! t ! d) (nmul (nmul lr (Number (g (d - n) - 1 / 2))) (Number (1 / 10))))
          [0..<n]] = E"
    by simp
  then show ?case unfolding kn using 0(2) by simp
next
  case (Suc j)
  then have kn: "k < n" by simp
  define delta where "delta = nmul (nmul lr (Number (g 0 - 1 / 2))) (Number (1 / 10))"
  define row where "row = (E ! t)[k := nadd (E ! t ! k) delta]"
  define s1 where "s1 = s\<lparr>arrays := (arrays s)(rs ! t \<mapsto> map CNum row)\<rparr>"
  define E1 where "E1 = E[t := row]"
  define g1 where "g1 = (\<lambda>i. g (Suc i))"
  have ba: "bumpAt (E ! t) k delta = row"
    using kn Suc.prems(3) by (simp add: bumpAt_def row_def)
  have be: "bumpEntry s m t k delta = Inr s1"
    using bumpEntry_matrixAt [OF Suc.prems(1)] Suc.prems(2) ba by (simp add: s1_def)
  have m1: "matrixAt s1 m rs E1"
    unfolding s1_def E1_def by (rule matrixAt_update [OF Suc.prems(1,2)])
  have t1: "t < length E1" using Suc.prems(2) by (simp add: E1_def)
  have l1: "length (E1 ! t) = n" using Suc.prems(2,3) by (simp add: E1_def row_def)
  have j: "j = n - Suc k" using Suc.hyps(2) by simp
  have k1: "Suc k \<le> n" using kn by simp
  from Suc.hyps(1) [OF j m1 t1 l1 k1, of g1] obtain s' where
    r: "perturbRowS lr m t [Suc k..<n] g1 s1 = (Inr (\<lambda>i. g1 (i + (n - Suc k))), s')"
    and m': "matrixAt s' m rs
             (E1[t := map (\<lambda>d. if d < Suc k then E1 ! t ! d
                               else nadd (E1 ! t ! d)
                                      (nmul (nmul lr (Number (g1 (d - Suc k) - 1 / 2))) (Number (1 / 10))))
                      [0..<n]])"
    and fr': "fresh s' = fresh s1" and ag': "\<forall>a. a \<notin> set rs \<longrightarrow> arrays s' a = arrays s1 a"
    by blast
  have g': "(\<lambda>i. g1 (i + (n - Suc k))) = (\<lambda>i. g (i + (n - k)))"
    using kn by (auto simp: g1_def fun_eq_iff Suc_diff_Suc)
  have rows: "map (\<lambda>d. if d < Suc k then E1 ! t ! d
                        else nadd (E1 ! t ! d)
                               (nmul (nmul lr (Number (g1 (d - Suc k) - 1 / 2))) (Number (1 / 10))))
                [0..<n]
              = map (\<lambda>d. if d < k then E ! t ! d
                          else nadd (E ! t ! d)
                                 (nmul (nmul lr (Number (g (d - k) - 1 / 2))) (Number (1 / 10))))
                [0..<n]"
  proof (rule map_cong [OF refl])
    fix d assume "d \<in> set [0..<n]"
    then have dn: "d < n" by simp
    have e1: "E1 ! t ! d = (if d = k then nadd (E ! t ! k) delta else E ! t ! d)"
      using Suc.prems(2,3) dn kn by (simp add: E1_def row_def nth_list_update)
    consider "d < k" | "d = k" | "k < d" by linarith
    then show "(if d < Suc k then E1 ! t ! d
                else nadd (E1 ! t ! d)
                       (nmul (nmul lr (Number (g1 (d - Suc k) - 1 / 2))) (Number (1 / 10))))
             = (if d < k then E ! t ! d
                else nadd (E ! t ! d)
                       (nmul (nmul lr (Number (g (d - k) - 1 / 2))) (Number (1 / 10))))"
    proof cases
      case 1
      then show ?thesis by (simp add: e1)
    next
      case 2
      have "E1 ! t ! k = nadd (E ! t ! k) delta" using e1 2 by simp
      with 2 show ?thesis by (simp add: delta_def)
    next
      case 3
      then have "g1 (d - Suc k) = g (d - k)" by (simp add: g1_def Suc_diff_Suc)
      with 3 show ?thesis by (simp add: e1)
    qed
  qed
  have E': "E1[t := X] = E[t := X]" for X by (simp add: E1_def)
  have u: "[k..<n] = k # [Suc k..<n]" using kn by (simp add: upt_conv_Cons)
  have p: "perturbRowS lr m t [k..<n] g s = perturbRowS lr m t [Suc k..<n] g1 s1"
    unfolding u using be by (simp add: random_def delta_def g1_def Let_def)
  have dr: "rs ! t \<in> set rs" using Suc.prems(1,2) by (simp add: matrixAt_def)
  have ag: "\<forall>a. a \<notin> set rs \<longrightarrow> arrays s' a = arrays s a"
    using ag' dr by (auto simp: s1_def)
  have fr: "fresh s' = fresh s" using fr' by (simp add: s1_def)
  show ?case
    unfolding p using r m' fr ag unfolding g' rows E' by blast
qed

lemma perturbTokensS_sim:
  assumes "matrixAt s m rs E"
  shows "\<exists>s'. perturbTokensS lr ts m g s
                = (map_sum Thrown snd (perturbTokens lr ts E g), s') \<and>
           fresh s' = fresh s \<and> (\<forall>a. a \<notin> set rs \<longrightarrow> arrays s' a = arrays s a) \<and>
           (\<forall>E' g'. perturbTokens lr ts E g = Inr (E', g') \<longrightarrow> matrixAt s' m rs E')"
  using assms
proof (induction ts arbitrary: s E g)
  case Nil
  then show ?case by simp
next
  case (Cons t ts)
  have len: "length rs = length E" and arr: "arrays s m = Some (map CArr rs)"
    using Cons.prems by (simp_all add: matrixAt_def)
  show ?case
  proof (cases "0 \<le> t \<and> t < int (length E)")
    case False
    then have "getAt E t = None" "getAt (map CArr rs) t = None"
      using len by (auto simp: getAt_def)
    then show ?thesis using arr by (simp add: rowLength_def)
  next
    case True
    define n where "n = length (E ! nat t)"
    have tl: "nat t < length E" using True by (simp add: nat_less_iff)
    have ge: "getAt E t = Some (E ! nat t)" using True by (simp add: getAt_def)
    have gc: "getAt (map CArr rs) t = Some (CArr (rs ! nat t))"
      using True len tl by (simp add: getAt_def)
    have ra: "arrays s (rs ! nat t) = Some (map CNum (E ! nat t))"
      using Cons.prems tl by (simp add: matrixAt_def)
    have rl: "rowLength s m t = Inr n"
      using arr gc ra by (simp add: rowLength_def n_def)
    from perturbRowS_sim [OF Cons.prems tl n_def [symmetric], of 0 lr g]
    obtain s1 where
      r: "perturbRowS lr m (nat t) [0..<n] g s = (Inr (\<lambda>i. g (i + n)), s1)"
      and m1: "matrixAt s1 m rs
                 (E[nat t := map (\<lambda>d. nadd (E ! nat t ! d)
                                      (nmul (nmul lr (Number (g d - 1 / 2))) (Number (1 / 10))))
                            [0..<n]])"
      and fr1: "fresh s1 = fresh s" and ag1: "\<forall>a. a \<notin> set rs \<longrightarrow> arrays s1 a = arrays s a"
      by auto
    define E1 where "E1 = E[nat t := map (\<lambda>d. nadd (E ! nat t ! d)
                                      (nmul (nmul lr (Number (g d - 1 / 2))) (Number (1 / 10))))
                            [0..<n]]"
    have p: "perturbTokens lr (t # ts) E g = perturbTokens lr ts E1 (\<lambda>i. g (i + n))"
      using ge by (simp add: perturbRow_explicit E1_def n_def)
    have q: "perturbTokensS lr (t # ts) m g s = perturbTokensS lr ts m (\<lambda>i. g (i + n)) s1"
      using rl r by simp
    from Cons.IH [OF m1 [folded E1_def], of "\<lambda>i. g (i + n)"] obtain s' where
      "perturbTokensS lr ts m (\<lambda>i. g (i + n)) s1
         = (map_sum Thrown snd (perturbTokens lr ts E1 (\<lambda>i. g (i + n))), s')"
      "fresh s' = fresh s1" "\<forall>a. a \<notin> set rs \<longrightarrow> arrays s' a = arrays s1 a"
      "\<forall>E' g'. perturbTokens lr ts E1 (\<lambda>i. g (i + n)) = Inr (E', g') \<longrightarrow> matrixAt s' m rs E'"
      by blast
    then show ?thesis
      unfolding p q using fr1 ag1 by (intro exI [of _ s']) simp
  qed
qed

lemma spread_shape:
  "spread s a = Some (s', a') \<Longrightarrow> a' = fresh s \<and> fresh s' = Suc (fresh s)"
  by (auto simp: spread_def alloc_def split: option.splits)

lemma matrixAt_below:
  assumes "matrixAt s m rs M" and "m < n" and "set rs \<subseteq> {..<n}"
    and "\<forall>a<n. arrays s2 a = arrays s a"
  shows "matrixAt s2 m rs M"
proof (rule matrixAt_frame [OF assms(1), of "{n..}"])
  show "set rs \<inter> {n..} = {}" using assms(3) by auto
  show "m \<notin> {n..}" using assms(2) by simp
  show "\<forall>a. a \<notin> {n..} \<longrightarrow> arrays s2 a = arrays s a" using assms(4) by simp
qed

lemma fpMatrix_matrixAt: "matrixAt s m rs M \<Longrightarrow> fpMatrix s m = insert m (set rs)"
  by (auto simp: matrixAt_def fpMatrix_def fpArray_def fpRow_def fpVec_def)

lemma footprintOK_readWeights: "footprintOK readWeights fpWeights"
  unfolding footprintOK_def
proof (intro allI impI)
  fix s r w assume rd: "readWeights s r = Some w"
  then obtain me ls mw xb where e: "readMatrix s (embeddingsRef r) = Some me"
    and l: "readLayers s (layersRef r) = Some ls"
    and ow: "readMatrix s (outputWRef r) = Some mw"
    and ob: "readVec s (outputbRef r) = Some xb"
    and w: "w = \<lparr>embeddings = me, layers = ls, outputLayer = \<lparr>W = mw, b = xb\<rparr>\<rparr>"
    by (auto simp: readWeights_def split: option.splits)
  note okm = footprintOK_readMatrix and okl = footprintOK_readLayers and okv = footprintOK_readVec
  have fp: "fpWeights s r = fpMatrix s (embeddingsRef r) \<union> fpLayers s (layersRef r) \<union>
              fpMatrix s (outputWRef r) \<union> fpVec s (outputbRef r)"
    by (simp add: fpWeights_def)
  have al: "\<forall>a\<in>fpWeights s r. arrays s a \<noteq> None"
    unfolding fp
    using footprintOK_allocated [OF okm e] footprintOK_allocated [OF okl l]
      footprintOK_allocated [OF okm ow] footprintOK_allocated [OF okv ob]
    by blast
  have loc: "readWeights s2 r = Some w \<and> fpWeights s2 r = fpWeights s r"
    if ag: "\<forall>a\<in>fpWeights s r. arrays s2 a = arrays s a" for s2
  proof -
    have "\<forall>a\<in>fpMatrix s (embeddingsRef r). arrays s2 a = arrays s a" using ag unfolding fp by blast
    note k0 = footprintOK_keep [OF okm e this]
    have "\<forall>a\<in>fpLayers s (layersRef r). arrays s2 a = arrays s a" using ag unfolding fp by blast
    note k1 = footprintOK_keep [OF okl l this]
    have "\<forall>a\<in>fpMatrix s (outputWRef r). arrays s2 a = arrays s a" using ag unfolding fp by blast
    note k2 = footprintOK_keep [OF okm ow this]
    have "\<forall>a\<in>fpVec s (outputbRef r). arrays s2 a = arrays s a" using ag unfolding fp by blast
    note k3 = footprintOK_keep [OF okv ob this]
    show ?thesis using k0 k1 k2 k3 by (simp add: readWeights_def fpWeights_def w)
  qed
  show "(\<forall>a\<in>fpWeights s r. arrays s a \<noteq> None) \<and>
        (\<forall>s2. (\<forall>a\<in>fpWeights s r. arrays s2 a = arrays s a) \<longrightarrow>
           readWeights s2 r = Some w \<and> fpWeights s2 r = fpWeights s r)"
    using al loc by blast
qed

lemma copyMatrix_matrixAt:
  assumes wf: "wfStore s" and rd: "readMatrix s a = Some M"
  obtains s' a' where "copyMatrix s a = Some (s', a')" and "wfStore s'"
    and "\<forall>x<fresh s. arrays s' x = arrays s x"
    and "matrixAt s' a' [fresh s..<a'] M" and "fresh s \<le> a'" and "fresh s' = Suc a'"
proof -
  from copier_step [OF copier_copyMatrix wf rd] obtain s' a' where
    c: "copyMatrix s a = Some (s', a')" and wf': "wfStore s'" and "fresh s \<le> fresh s'"
    and ag: "\<forall>x<fresh s. arrays s' x = arrays s x" and r: "readMatrix s' a' = Some M"
    and "fpMatrix s' a' \<subseteq> {fresh s..<fresh s'}"
    by blast
  from copyMatrix_shape [OF c] have sh: "arrays s' a' = Some (map CArr [fresh s..<a'])"
    "fresh s \<le> a'" "fresh s' = Suc a'" by blast+
  have "matrixAt s' a' [fresh s..<a'] M"
    by (rule matrixAt_of_read [OF sh(1) r]) simp_all
  then show ?thesis by (rule that [OF c wf' ag _ sh(2) sh(3)])
qed

lemma copyWeights_spec:
  assumes wf: "wfStore s" and rd: "readWeights s wr = Some w"
  obtains s4 nw lo where "copyWeights s wr = Some (s4, nw)"
    and "\<forall>a<fresh s. arrays s4 a = arrays s a"
    and "matrixAt s4 (embeddingsRef nw) [fresh s..<embeddingsRef nw] (embeddings w)"
    and "readLayers s4 (layersRef nw) = Some (layers w)"
    and "fpLayers s4 (layersRef nw) \<subseteq> {Suc (embeddingsRef nw)..<lo}"
    and "matrixAt s4 (outputWRef nw) [lo..<outputWRef nw] (W (outputLayer w))"
    and "arrays s4 (outputbRef nw) = Some (map CNum (b (outputLayer w)))"
    and "fresh s \<le> embeddingsRef nw" and "Suc (embeddingsRef nw) \<le> lo"
    and "lo \<le> outputWRef nw" and "outputbRef nw = Suc (outputWRef nw)"
    and "fresh s4 = Suc (outputbRef nw)"
proof -
  from rd obtain me ls mw xb where e: "readMatrix s (embeddingsRef wr) = Some me"
    and l: "readLayers s (layersRef wr) = Some ls"
    and ow: "readMatrix s (outputWRef wr) = Some mw"
    and ob: "readVec s (outputbRef wr) = Some xb"
    and w: "w = \<lparr>embeddings = me, layers = ls, outputLayer = \<lparr>W = mw, b = xb\<rparr>\<rparr>"
    by (auto simp: readWeights_def split: option.splits)
  note okm = footprintOK_readMatrix and okl = footprintOK_readLayers and okv = footprintOK_readVec
  from copyMatrix_matrixAt [OF wf e] obtain s1 e' where
    c1: "copyMatrix s (embeddingsRef wr) = Some (s1, e')" and wf1: "wfStore s1"
    and ag1: "\<forall>x<fresh s. arrays s1 x = arrays s x"
    and m1: "matrixAt s1 e' [fresh s..<e'] me" and lo1: "fresh s \<le> e'" and fr1: "fresh s1 = Suc e'"
    by blast
  note l1 = footprintOK_kept(1) [OF okl wf l ag1]
  note ow1 = footprintOK_kept(1) [OF okm wf ow ag1]
  note ob1 = footprintOK_kept(1) [OF okv wf ob ag1]
  from copier_step [OF copier_copyLayers wf1 l1] obtain s2 l' where
    c2: "copyLayers s1 (layersRef wr) = Some (s2, l')" and wf2: "wfStore s2"
    and fr2: "fresh s1 \<le> fresh s2" and ag2: "\<forall>a<fresh s1. arrays s2 a = arrays s1 a"
    and l2: "readLayers s2 l' = Some ls" and fl2: "fpLayers s2 l' \<subseteq> {fresh s1..<fresh s2}"
    by blast
  note ow2 = footprintOK_kept(1) [OF okm wf1 ow1 ag2]
  note ob2 = footprintOK_kept(1) [OF okv wf1 ob1 ag2]
  from copyMatrix_matrixAt [OF wf2 ow2] obtain s3 w' where
    c3: "copyMatrix s2 (outputWRef wr) = Some (s3, w')" and wf3: "wfStore s3"
    and ag3: "\<forall>x<fresh s2. arrays s3 x = arrays s2 x"
    and m3: "matrixAt s3 w' [fresh s2..<w'] mw" and lo3: "fresh s2 \<le> w'" and fr3: "fresh s3 = Suc w'"
    by blast
  note ob3 = footprintOK_kept(1) [OF okv wf2 ob2 ag3]
  from copier_step [OF copier_spread wf3 ob3] obtain s4 b' where
    c4: "spread s3 (outputbRef wr) = Some (s4, b')" and wf4: "wfStore s4"
    and "fresh s3 \<le> fresh s4"
    and ag4: "\<forall>a<fresh s3. arrays s4 a = arrays s3 a" and ob4: "readVec s4 b' = Some xb"
    and "fpVec s4 b' \<subseteq> {fresh s3..<fresh s4}"
    by blast
  from spread_shape [OF c4] have sh4: "b' = fresh s3" "fresh s4 = Suc (fresh s3)" by simp_all
  define nw where "nw = \<lparr>embeddingsRef = e', layersRef = l', outputWRef = w', outputbRef = b'\<rparr>"
  have a: "copyWeights s wr = Some (s4, nw)"
    by (simp add: copyWeights_def c1 c2 c3 c4 nw_def)
  have ag24: "\<forall>a<fresh s2. arrays s4 a = arrays s2 a"
  proof (intro allI impI)
    fix a assume "a < fresh s2"
    then have "a < fresh s3" using fr3 lo3 by simp
    then show "arrays s4 a = arrays s2 a" using ag4 ag3 \<open>a < fresh s2\<close> by simp
  qed
  have ag14: "\<forall>a<fresh s1. arrays s4 a = arrays s1 a"
  proof (intro allI impI)
    fix a assume "a < fresh s1"
    then have "a < fresh s2" using fr2 by simp
    then show "arrays s4 a = arrays s1 a" using ag24 ag2 \<open>a < fresh s1\<close> by simp
  qed
  have b: "\<forall>a<fresh s. arrays s4 a = arrays s a"
  proof (intro allI impI)
    fix a assume "a < fresh s"
    then have "a < fresh s1" using fr1 lo1 by simp
    then show "arrays s4 a = arrays s a" using ag14 ag1 \<open>a < fresh s\<close> by simp
  qed
  have me4: "matrixAt s4 e' [fresh s..<e'] me"
    by (rule matrixAt_below [OF m1 _ _ ag14]) (use fr1 in auto)
  note l4 = footprintOK_range [OF okl l2 fl2 ag24 order_refl]
  have mw4: "matrixAt s4 w' [fresh s2..<w'] mw"
    by (rule matrixAt_below [OF m3 _ _ ag4]) (use fr3 in auto)
  have ob4': "arrays s4 b' = Some (map CNum xb)" using ob4 by (simp add: readVec_eq)
  show ?thesis
  proof (rule that [of s4 nw "fresh s2"])
    show "copyWeights s wr = Some (s4, nw)" by (rule a)
    show "\<forall>a<fresh s. arrays s4 a = arrays s a" by (rule b)
    show "matrixAt s4 (embeddingsRef nw) [fresh s..<embeddingsRef nw] (embeddings w)"
      using me4 by (simp add: nw_def w)
    show "readLayers s4 (layersRef nw) = Some (layers w)" using l4(1) by (simp add: nw_def w)
    show "fpLayers s4 (layersRef nw) \<subseteq> {Suc (embeddingsRef nw)..<fresh s2}"
      using l4(2) fr1 by (simp add: nw_def)
    show "matrixAt s4 (outputWRef nw) [fresh s2..<outputWRef nw] (W (outputLayer w))"
      using mw4 by (simp add: nw_def w)
    show "arrays s4 (outputbRef nw) = Some (map CNum (b (outputLayer w)))"
      using ob4' by (simp add: nw_def w)
    show "fresh s \<le> embeddingsRef nw" using lo1 by (simp add: nw_def)
    show "Suc (embeddingsRef nw) \<le> fresh s2" using fr1 fr2 by (simp add: nw_def)
    show "fresh s2 \<le> outputWRef nw" using lo3 by (simp add: nw_def)
    show "outputbRef nw = Suc (outputWRef nw)" using sh4 fr3 by (simp add: nw_def)
    show "fresh s4 = Suc (outputbRef nw)" using sh4 by (simp add: nw_def)
  qed
qed

lemma trainStep_layers:
  "trainStep toks tgt w lr g = Inr (r, g') \<Longrightarrow> layers (newWeights r) = layers w"
  by (auto simp: trainStep_def Let_def split: sum.splits option.splits)

text \<open>
  \<open>trainStep\<close> on the store does what \<open>trainStep\<close> on values does, and changes no array
  that existed before the call, whatever the outcome.
\<close>

lemma trainStepS_refines:
  assumes wf: "wfStore s" and rd: "readWeights s wr = Some w"
  shows "\<exists>out s'. trainStepS toks tgt wr lr g s = (out, s') \<and>
           (\<forall>a<fresh s. arrays s' a = arrays s a) \<and>
           (case trainStep toks tgt w lr g of
              Inl e \<Rightarrow> out = Inl (Thrown e)
            | Inr (r, g') \<Rightarrow>
                (\<exists>rS. out = Inr (rS, g') \<and>
                   readWeights s' (newWeightsRef rS) = Some (newWeights r) \<and>
                   resultS rS = result r \<and> stepLossS rS = stepLoss r \<and>
                   fpWeights s' (newWeightsRef rS) \<subseteq> {fresh s..<fresh s'}))"
proof (cases "forward toks w (Some tgt)")
  case (Inl e)
  then show ?thesis using rd by (simp add: trainStep_def trainStepS_def)
next
  case (Inr res)
  from copyWeights_spec [OF wf rd] obtain s4 nw lo where
    cw: "copyWeights s wr = Some (s4, nw)"
    and ag4: "\<forall>a<fresh s. arrays s4 a = arrays s a"
    and mE4: "matrixAt s4 (embeddingsRef nw) [fresh s..<embeddingsRef nw] (embeddings w)"
    and l4: "readLayers s4 (layersRef nw) = Some (layers w)"
    and fl4: "fpLayers s4 (layersRef nw) \<subseteq> {Suc (embeddingsRef nw)..<lo}"
    and mW4: "matrixAt s4 (outputWRef nw) [lo..<outputWRef nw] (W (outputLayer w))"
    and b4: "arrays s4 (outputbRef nw) = Some (map CNum (b (outputLayer w)))"
    and o1: "fresh s \<le> embeddingsRef nw" and o2: "Suc (embeddingsRef nw) \<le> lo"
    and o3: "lo \<le> outputWRef nw" and o4: "outputbRef nw = Suc (outputWRef nw)"
    and o5: "fresh s4 = Suc (outputbRef nw)"
    by blast
  define probs where "probs = probabilities res"
  show ?thesis
  proof (cases "getAt (layerOutputs res) (int (length (layerOutputs res)) - 1)")
    case None
    then show ?thesis
      using rd Inr cw ag4 by (simp add: trainStep_def trainStepS_def Let_def)
  next
    case (Some lout)
    define lastHidden where "lastHidden = getAt (ffnOutput lout) (int (length toks) - 1)"
    have eta: "\<lparr>W = W (outputLayer w), b = b (outputLayer w)\<rparr> = outputLayer w" by simp
    have sepb: "outputbRef nw \<notin> set [lo..<outputWRef nw]" using o4 by simp
    have sepw: "outputWRef nw \<noteq> outputbRef nw" using o4 by simp
    from updateOutputS_sim [OF mW4 b4 sepb sepw, of tgt lr probs lastHidden "[0..<length probs]"]
    obtain s5 where
      u5: "updateOutputS tgt lr probs lastHidden [0..<length probs] nw s4
             = (map_sum Thrown (\<lambda>_. ())
                  (updateOutput tgt lr probs lastHidden [0..<length probs] (outputLayer w)), s5)"
      and fr5: "fresh s5 = fresh s4"
      and ag5: "\<forall>a. a \<notin> insert (outputbRef nw) (set [lo..<outputWRef nw]) \<longrightarrow>
                  arrays s5 a = arrays s4 a"
      and ok5: "\<forall>out. updateOutput tgt lr probs lastHidden [0..<length probs] (outputLayer w)
                        = Inr out \<longrightarrow>
                  matrixAt s5 (outputWRef nw) [lo..<outputWRef nw] (W out) \<and>
                  arrays s5 (outputbRef nw) = Some (map CNum (b out))"
      unfolding eta by blast
    have old5: "\<forall>a<fresh s. arrays s5 a = arrays s a"
    proof (intro allI impI)
      fix a assume a: "a < fresh s"
      then have "arrays s5 a = arrays s4 a" using ag5 o1 o2 o3 o4 by simp
      then show "arrays s5 a = arrays s a" using ag4 a by simp
    qed
    show ?thesis
    proof (cases "updateOutput tgt lr probs lastHidden [0..<length probs] (outputLayer w)")
      case (Inl e)
      have "trainStepS toks tgt wr lr g s = (Inl (Thrown e), s5)"
        using rd Inr cw Some u5 Inl
        by (simp add: trainStepS_def Let_def probs_def lastHidden_def)
      moreover have "trainStep toks tgt w lr g = Inl e"
        using Inr Some Inl by (simp add: trainStep_def Let_def probs_def lastHidden_def)
      ultimately show ?thesis using old5 by simp
    next
      case out: (Inr out)
      have mW5: "matrixAt s5 (outputWRef nw) [lo..<outputWRef nw] (W out)"
        and b5: "arrays s5 (outputbRef nw) = Some (map CNum (b out))"
        using ok5 out by simp_all
      have mE5: "matrixAt s5 (embeddingsRef nw) [fresh s..<embeddingsRef nw] (embeddings w)"
        by (rule matrixAt_frame [OF mE4 _ _ ag5]) (use o2 o3 o4 in auto)
      from perturbTokensS_sim [OF mE5, of lr toks g] obtain s6 where
        u6: "perturbTokensS lr toks (embeddingsRef nw) g s5
               = (map_sum Thrown snd (perturbTokens lr toks (embeddings w) g), s6)"
        and fr6: "fresh s6 = fresh s5"
        and ag6: "\<forall>a. a \<notin> set [fresh s..<embeddingsRef nw] \<longrightarrow> arrays s6 a = arrays s5 a"
        and ok6: "\<forall>E' g'. perturbTokens lr toks (embeddings w) g = Inr (E', g') \<longrightarrow>
                    matrixAt s6 (embeddingsRef nw) [fresh s..<embeddingsRef nw] E'"
        by blast
      have old6: "\<forall>a<fresh s. arrays s6 a = arrays s a"
      proof (intro allI impI)
        fix a assume a: "a < fresh s"
        then have "arrays s6 a = arrays s5 a" using ag6 by simp
        then show "arrays s6 a = arrays s a" using old5 a by simp
      qed
      show ?thesis
      proof (cases "perturbTokens lr toks (embeddings w) g")
        case (Inl e)
        have "trainStepS toks tgt wr lr g s = (Inl (Thrown e), s6)"
          using rd Inr cw Some u5 u6 out Inl
          by (simp add: trainStepS_def Let_def probs_def lastHidden_def)
        moreover have "trainStep toks tgt w lr g = Inl e"
          using Inr Some out Inl by (simp add: trainStep_def Let_def probs_def lastHidden_def)
        ultimately show ?thesis using old6 by simp
      next
        case pt: (Inr p)
        obtain E2 g' where p: "p = (E2, g')" by (cases p)
        have mE6: "matrixAt s6 (embeddingsRef nw) [fresh s..<embeddingsRef nw] E2"
          using ok6 pt p by simp
        define r where "r = \<lparr>newWeights = w\<lparr>embeddings := E2, outputLayer := out\<rparr>,
                              stepLoss = loss res, result = res\<rparr>"
        define rS where "rS = \<lparr>newWeightsRef = nw, stepLossS = loss res, resultS = res\<rparr>"
        have ts: "trainStep toks tgt w lr g = Inr (r, g')"
          using Inr Some out pt p
          by (simp add: trainStep_def Let_def probs_def lastHidden_def r_def)
        have tS: "trainStepS toks tgt wr lr g s = (Inr (rS, g'), s6)"
          using rd Inr cw Some u5 u6 out pt p
          by (simp add: trainStepS_def Let_def probs_def lastHidden_def rS_def)
        have mW6: "matrixAt s6 (outputWRef nw) [lo..<outputWRef nw] (W out)"
          by (rule matrixAt_frame [OF mW5 _ _ ag6]) (use o2 o3 in auto)
        have b6: "arrays s6 (outputbRef nw) = Some (map CNum (b out))"
          using ag6 b5 o2 o3 o4 by simp
        have agL: "\<forall>a\<in>fpLayers s4 (layersRef nw). arrays s6 a = arrays s4 a"
        proof
          fix a assume "a \<in> fpLayers s4 (layersRef nw)"
          then have a: "Suc (embeddingsRef nw) \<le> a" "a < lo" using fl4 by auto
          then have "arrays s6 a = arrays s5 a" using ag6 by simp
          also have "\<dots> = arrays s4 a" using ag5 a o3 o4 by simp
          finally show "arrays s6 a = arrays s4 a" .
        qed
        note l6 = footprintOK_keep [OF footprintOK_readLayers l4 agL]
        have rv6: "readVec s6 (outputbRef nw) = Some (b out)" using b6 by (simp add: readVec_eq)
        have req: "\<lparr>embeddings = E2, layers = layers w, outputLayer = \<lparr>W = W out, b = b out\<rparr>\<rparr>
                   = w\<lparr>embeddings := E2, outputLayer := out\<rparr>"
          by (cases w) simp
        have rw: "readWeights s6 nw = Some (w\<lparr>embeddings := E2, outputLayer := out\<rparr>)"
          using matrixAt_read [OF mE6] matrixAt_read [OF mW6] rv6 l6(1) req
          by (simp add: readWeights_def)
        have fp: "fpWeights s6 nw \<subseteq> {fresh s..<fresh s6}"
          using fpMatrix_matrixAt [OF mE6] fpMatrix_matrixAt [OF mW6] l6(2) fl4
            o1 o2 o3 o4 o5 fr5 fr6
          by (auto simp: fpWeights_def fpVec_def)
        show ?thesis
          unfolding ts tS using rw old6 fp by (simp add: rS_def r_def)
      qed
    qed
  qed
qed

lemma tinyStore_wf: "wfStore tinyStore"
  by (simp add: wfStore_def tinyStore_def)

lemma tinyStore_read: "readWeights tinyStore tinyRef = Some tinyWeights"
  by (simp add: readWeights_def readMatrix_def readLayers_def readHeads_def readArray_def
      readLayer_def readHead_def readRow_def readVec_def cellNum_def tinyStore_def tinyRef_def
      tinyArrays_def tinyWeights_def)

lemma tinyWeights_trainStep:
  "\<exists>r. trainStep [0] 0 tinyWeights (Number 1) (constRng (9 / 10)) = Inr r"
  by (simp add: tinyWeights_def engine_defs)

section \<open>The threaded engine leaves the source of random numbers alone\<close>

lemma mapR_pure: "mapR (\<lambda>v g. (f v, g)) xs = (\<lambda>g. (map f xs, g))"
proof
  fix g show "mapR (\<lambda>v g. (f v, g)) xs g = (map f xs, g)"
    by (induction xs arbitrary: g) simp_all
qed

lemma mapR_pure_ext:
  assumes "\<And>x. f x = (\<lambda>g. (h x, g))"
  shows "mapR f xs = (\<lambda>g. (map h xs, g))"
proof -
  have "f = (\<lambda>v g. (h v, g))" using assms by (intro ext) simp
  then show ?thesis by (simp add: mapR_pure)
qed

lemma foldlR_pure: "foldlR (\<lambda>a v g. (f a v, g)) a xs = (\<lambda>g. (foldl f a xs, g))"
proof
  fix g show "foldlR (\<lambda>a v g. (f a v, g)) a xs g = (foldl f a xs, g)"
    by (induction xs arbitrary: a g) simp_all
qed

lemma softmaxR_pure: "softmaxR x = (\<lambda>g. (softmax x, g))"
  by (rule ext) (simp add: softmaxR_def softmax_def mapR_pure foldlR_pure Let_def split: list.splits)

lemma dotFromR_pure: "dotFromR s a ys = (\<lambda>g. (dotFrom s a ys, g))"
proof
  fix g show "dotFromR s a ys g = (dotFrom s a ys, g)"
    by (induction s a ys arbitrary: g rule: dotFrom.induct) simp_all
qed

lemma dotProductR_pure: "dotProductR a ys = (\<lambda>g. (dotProduct a ys, g))"
  by (rule ext) (simp add: dotProductR_def dotProduct_def dotFromR_pure)

lemma matVecMulR_pure: "matVecMulR m v = (\<lambda>g. (matVecMul m v, g))"
  by (rule ext) (simp add: matVecMulR_def matVecMul_def dotProductR_pure mapR_pure)

lemma vecAddR_pure: "vecAddR a ys = (\<lambda>g. (vecAdd a ys, g))"
proof
  fix g show "vecAddR a ys g = (vecAdd a ys, g)"
    by (induction a ys arbitrary: g rule: vecAdd.induct) simp_all
qed

lemma reluR_pure: "reluR x = (\<lambda>g. (relu x, g))"
  by (rule ext) (simp add: reluR_def relu_def mapR_pure)

lemma layerNormR_pure: "layerNormR x = (\<lambda>g. (layerNorm x, g))"
  by (rule ext) (simp add: layerNormR_def layerNorm_def foldlR_pure mapR_pure Let_def)

lemma crossEntropyLossR_pure:
  "crossEntropyLossR predicted targetIndex = (\<lambda>g. (crossEntropyLoss predicted targetIndex, g))"
  by (rule ext) (simp add: crossEntropyLossR_def crossEntropyLoss_def Let_def)

lemma rowScoresR_pure:
  "rowScoresR seqLen Q K scale i = (\<lambda>g. (rowScores seqLen Q K scale i, g))"
proof
  fix g
  have "(\<lambda>j g. if j > i then (Number (- 1000000000), g)
               else (case dotProductR (Q ! i) (K ! j) g of (dp, g1) \<Rightarrow> (ndiv dp scale, g1)))
        = (\<lambda>j g. (if j > i then Number (- 1000000000)
                   else ndiv (dotProduct (Q ! i) (K ! j)) scale, g))"
    by (intro ext) (simp add: dotProductR_pure)
  then show "rowScoresR seqLen Q K scale i g = (rowScores seqLen Q K scale i, g)"
    by (simp add: rowScoresR_def rowScores_def mapR_pure)
qed

lemma foldlR_mapR:
  "foldlR (\<lambda>acc x. mapR (\<lambda>k g. (f acc x k, g)) (ks acc)) a xs
   = (\<lambda>g. (foldl (\<lambda>acc x. map (f acc x) (ks acc)) a xs, g))"
proof
  fix g
  show "foldlR (\<lambda>acc x. mapR (\<lambda>k g. (f acc x k, g)) (ks acc)) a xs g
        = (foldl (\<lambda>acc x. map (f acc x) (ks acc)) a xs, g)"
    by (induction xs arbitrary: a g) (simp_all add: mapR_pure)
qed

lemma weightedSumR_pure:
  "weightedSumR seqLen V scoreRow = (\<lambda>g. (weightedSum seqLen V scoreRow, g))"
  using foldlR_mapR [of "\<lambda>weighted j k. nadd (weighted ! k) (nmul (getN scoreRow j) (getN (V ! j) k))"
      "\<lambda>_. [0..<length (V ! 0)]"]
  by (intro ext) (simp add: weightedSumR_def weightedSum_def mapR_pure)

lemma projectR_pure: "projectR M input = (\<lambda>g. (project M input, g))"
  by (rule ext) (simp add: projectR_def project_def matVecMulR_pure mapR_pure)

lemma attentionHeadR_pure: "attentionHeadR input head = (\<lambda>g. (attentionHead input head, g))"
  by (rule ext)
    (simp add: attentionHeadR_def attentionHead_def rawScores_def projectR_pure rowScoresR_pure
      softmaxR_pure weightedSumR_pure mapR_pure Let_def comp_def split: list.splits)

lemma feedForwardR_pure: "feedForwardR input f = (\<lambda>g. (feedForward input f, g))"
  by (rule ext)
    (simp add: feedForwardR_def feedForward_def matVecMulR_pure vecAddR_pure reluR_pure Let_def)

lemma lookupAllR_pure: "lookupAllR E toks = (\<lambda>g. (lookupAll E toks, g))"
proof
  fix g show "lookupAllR E toks g = (lookupAll E toks, g)"
    by (induction toks arbitrary: g) (simp_all split: option.splits sum.splits)
qed

lemma runHeadsR_pure: "runHeadsR current hs = (\<lambda>g. (runHeads current hs, g))"
proof
  fix g show "runHeadsR current hs g = (runHeads current hs, g)"
    by (induction hs arbitrary: g)
      (simp_all add: attentionHeadR_pure split: sum.splits prod.splits)
qed

lemma combineHeadsR_pure:
  "combineHeadsR current headOutputs i = (\<lambda>g. (combineHeads current headOutputs i, g))"
  using foldlR_mapR [of "\<lambda>combined headOut d. nadd (combined ! d)
                           (ndiv (wrapGet (headOut ! i) d) (Number (real (length headOutputs))))"
      "\<lambda>combined. [0..<length combined]"]
  by (intro ext) (simp add: combineHeadsR_def combineHeads_def mapR_pure)

lemma layerStepR_pure: "layerStepR current layer = (\<lambda>g. (layerStep current layer, g))"
proof -
  have c: "mapR (combineHeadsR current hs) xs = (\<lambda>g. (map (combineHeads current hs) xs, g))"
    for hs xs
    by (rule mapR_pure_ext) (rule combineHeadsR_pure)
  show ?thesis
    by (rule ext)
      (simp add: layerStepR_def layerStep_def runHeadsR_pure c vecAddR_pure
        layerNormR_pure feedForwardR_pure mapR_pure Let_def split: sum.splits prod.splits)
qed

lemma runLayersR_pure: "runLayersR current ls = (\<lambda>g. (runLayers current ls, g))"
proof
  fix g show "runLayersR current ls g = (runLayers current ls, g)"
    by (induction ls arbitrary: current g)
      (simp_all add: layerStepR_pure split: sum.splits prod.splits)
qed

lemma matVecMulUR_pure: "matVecMulUR m v = (\<lambda>g. (matVecMulU m v, g))"
  by (rule ext) (simp add: matVecMulUR_def matVecMulU_def matVecMulR_pure split: option.splits)

lemma findMaxR_pure:
  "findMaxR maxProb predicted i ps = (\<lambda>g. (findMax maxProb predicted i ps, g))"
proof
  fix g show "findMaxR maxProb predicted i ps g = (findMax maxProb predicted i ps, g)"
    by (induction maxProb predicted i ps rule: findMax.induct) simp_all
qed

lemma forwardR_pure: "forwardR toks weights target = (\<lambda>g. (forward toks weights target, g))"
  by (rule ext)
    (simp add: forwardR_def forward_def lookupAllR_pure runLayersR_pure matVecMulUR_pure
      vecAddR_pure softmaxR_pure findMaxR_pure crossEntropyLossR_pure Let_def
      split: sum.splits prod.splits option.splits)

section \<open>Properties of rounding\<close>



lemma roundEven_near: "\<bar>of_int (roundEven y) - y\<bar> \<le> 1 / 2"
proof -
  have "of_int \<lfloor>y\<rfloor> \<le> y" "y < of_int \<lfloor>y\<rfloor> + 1" by linarith+
  then show ?thesis by (auto simp: roundEven_def Let_def)
qed



lemma two_powi_less_iff: "(2::real) powi a < 2 powi c2 \<longleftrightarrow> a < c2"
proof
  assume l: "(2::real) powi a < 2 powi c2"
  show "a < c2"
  proof (rule ccontr)
    assume "\<not> a < c2"
    then have "c2 \<le> a" by simp
    then have "(2::real) powi c2 \<le> 2 powi a" by (intro power_int_increasing) simp_all
    with l show False by simp
  qed
next
  assume "a < c2"
  then show "(2::real) powi a < 2 powi c2" by (intro power_int_strict_increasing) simp_all
qed


lemma two_powi_pos: "0 < (2::real) powi a"
  by (simp add: zero_less_power_int)

lemma two_powi_Suc: "(2::real) powi (a + 1) = 2 * 2 powi a"
  by (simp add: power_int_add)

lemma binade_unique:
  fixes a :: real
  assumes "2 powi e \<le> a" "a < 2 powi (e + 1)" "2 powi e' \<le> a" "a < 2 powi (e' + 1)"
  shows "e = e'"
proof -
  have "(2::real) powi e < 2 powi (e' + 1)" using assms by linarith
  then have 1: "e < e' + 1" by (simp only: two_powi_less_iff)
  have "(2::real) powi e' < 2 powi (e + 1)" using assms by linarith
  then have 2: "e' < e + 1" by (simp only: two_powi_less_iff)
  from 1 2 show "e = e'" by simp
qed

lemma binadeUp_spec:
  assumes "2 powi e0 \<le> a"
  shows "2 powi (binadeUp k e0 a) \<le> a \<and>
         (binadeUp k e0 a < e0 + int k \<longrightarrow> a < 2 powi (binadeUp k e0 a + 1)) \<and>
         e0 \<le> binadeUp k e0 a \<and> binadeUp k e0 a \<le> e0 + int k"
  using assms
proof (induction k arbitrary: e0)
  case 0
  then show ?case by simp
next
  case (Suc k)
  show ?case
  proof (cases "2 powi (e0 + 1) \<le> a")
    case True
    from Suc.IH [OF True] show ?thesis using True by (simp add: add.assoc add.commute)
  next
    case False
    then show ?thesis using Suc.prems by simp
  qed
qed

lemma binadeDown_spec:
  assumes "a < 2 powi (e0 + 1)"
  shows "a < 2 powi (binadeDown k e0 a + 1) \<and>
         (e0 - int k < binadeDown k e0 a \<longrightarrow> 2 powi (binadeDown k e0 a) \<le> a) \<and>
         e0 - int k \<le> binadeDown k e0 a \<and> binadeDown k e0 a \<le> e0"
  using assms
proof (induction k arbitrary: e0)
  case 0
  then show ?case by simp
next
  case (Suc k)
  show ?case
  proof (cases "a < 2 powi e0")
    case True
    then have "a < 2 powi (e0 - 1 + 1)" by simp
    from Suc.IH [OF this] show ?thesis using True by (simp add: algebra_simps)
  next
    case False
    then show ?thesis using Suc.prems by simp
  qed
qed

lemma binade_spec:
  "- 1022 \<le> binade x \<and> binade x \<le> 1024 \<and>
   (- 1022 < binade x \<longrightarrow> 2 powi (binade x) \<le> \<bar>x\<bar>) \<and>
   (binade x < 1024 \<longrightarrow> \<bar>x\<bar> < 2 powi (binade x + 1))"
proof (cases "1 \<le> \<bar>x\<bar>")
  case True
  then have "2 powi 0 \<le> \<bar>x\<bar>" by simp
  note s = binadeUp_spec [OF this, of 1024]
  have c2: "binade x = binadeUp 1024 0 \<bar>x\<bar>" using True by (simp only: binade_def if_True)
  show ?thesis unfolding c2 using s by auto
next
  case False
  then have "\<bar>x\<bar> < 2 powi (- 1 + 1)" by simp
  note s = binadeDown_spec [OF this, of 1021]
  have c2: "binade x = binadeDown 1021 (- 1) \<bar>x\<bar>" using False by (simp only: binade_def if_False)
  show ?thesis unfolding c2 using s by auto
qed

lemma ulp_pos: "0 < ulp x"
  by (simp add: ulp_def two_powi_pos)




lemma roundEven_zero [simp]: "roundEven 0 = 0"
  by (simp add: roundEven_def)


lemma nearest_err: "\<bar>nearest x - x\<bar> \<le> ulp x / 2"
proof -
  define u where "u = ulp x"
  define r :: real where "r = of_int (roundEven (x / u))"
  have u: "0 < u" unfolding u_def by (rule ulp_pos)
  have "\<bar>r - x / u\<bar> \<le> 1 / 2" unfolding r_def by (rule roundEven_near)
  then have "\<bar>r - x / u\<bar> * u \<le> 1 / 2 * u" using u by (intro mult_right_mono) simp_all
  moreover have "(r - x / u) * u = r * u - x" using u by (simp add: left_diff_distrib)
  then have "\<bar>r - x / u\<bar> * u = \<bar>r * u - x\<bar>"
    using u by (metis abs_mult abs_of_pos)
  moreover have "nearest x = r * u" by (simp add: nearest_def r_def u_def)
  ultimately show ?thesis by (simp add: u_def)
qed

lemma ulp_le: "ulp x \<le> 2 powi (- 52) * \<bar>x\<bar> + 2 powi (- 1074)"
proof (cases "binade x = - 1022")
  case True
  then have "ulp x = 2 powi (- 1074)" by (simp add: ulp_def)
  moreover have "0 \<le> 2 powi (- 52) * \<bar>x\<bar>" by (simp add: two_powi_pos less_imp_le)
  ultimately show ?thesis by linarith
next
  case False
  then have "2 powi (binade x) \<le> \<bar>x\<bar>" using binade_spec [of x] by simp
  then have "2 powi (- 52) * 2 powi (binade x) \<le> 2 powi (- 52) * \<bar>x\<bar>"
    by (intro mult_left_mono) (simp_all add: two_powi_pos less_imp_le)
  moreover have "ulp x = 2 powi (- 52) * 2 powi (binade x)"
    by (simp add: ulp_def power_int_diff power_int_minus field_simps)
  moreover have "0 < (2::real) powi (- 1074)" by (rule two_powi_pos)
  ultimately show ?thesis by linarith
qed

lemma nearest_rel_err: "\<bar>nearest x - x\<bar> \<le> 2 powi (- 53) * \<bar>x\<bar> + 2 powi (- 1075)"
proof -
  have "(2::real) powi (- 52) / 2 = 2 powi (- 53)" "(2::real) powi (- 1074) / 2 = 2 powi (- 1075)"
    by (simp_all add: power_int_minus field_simps)
  then have "ulp x / 2 \<le> 2 powi (- 53) * \<bar>x\<bar> + 2 powi (- 1075)"
    using ulp_le [of x] by (simp add: field_simps)
  with nearest_err [of x] show ?thesis by linarith
qed








lemma binade_tiny:
  assumes "\<bar>x\<bar> < 2 powi (- 1022)"
  shows "binade x = - 1022"
proof (rule ccontr)
  assume "binade x \<noteq> - 1022"
  then have c2: "- 1022 < binade x" using binade_spec [of x] by linarith
  then have "2 powi (binade x) \<le> \<bar>x\<bar>" using binade_spec [of x] by simp
  with assms have "(2::real) powi (binade x) < 2 powi (- 1022)" by linarith
  then have "binade x < - 1022" by (simp only: two_powi_less_iff)
  with c2 show False by simp
qed


lemma nearest_tiny:
  assumes "\<bar>x\<bar> < 2 powi (- 1022)"
  shows "nearest x = of_int (roundEven (x / 2 powi (- 1074))) * 2 powi (- 1074)"
  by (simp add: nearest_def ulp_def binade_tiny [OF assms])






lemma rnd_finite_err:
  assumes "rnd z = Fin v"
  shows "\<bar>v - z\<bar> \<le> 2 powi (- 53) * \<bar>z\<bar> + 2 powi (- 1075)"
proof -
  have "v = nearest z" using assms by (simp add: rnd_def Let_def split: if_splits)
  then show ?thesis using nearest_rel_err [of z] by simp
qed

lemma rnd_cases: "rnd z = PosInf \<or> rnd z = NegInf \<or> rnd z = Fin (nearest z)"
  by (simp add: rnd_def Let_def)































section \<open>Claims\<close>

text \<open>
  C7, as amended. For a non-empty vector of finite numbers, \<open>layerNorm\<close> subtracts the mean
  and divides by \<open>sqrt (variance + 1e-5)\<close>, a divisor that is never zero. The output has
  mean 0, and its variance is \<open>variance / (variance + 1e-5)\<close>: below 1 always, and close to
  1 only when the variance of the input is large against \<open>1e-5\<close>. For a constant input
  the output is all zeros.
\<close>

theorem layerNorm_normalises:
  "(rs \<noteq> [] \<longrightarrow>
      (\<exists>ys. layerNorm (map Number rs) = map Number ys \<and> length ys = length rs \<and>
         (\<forall>i<length rs. ys ! i = (rs ! i - meanOf rs) / sqrt (varianceOf rs + 1 / 100000)) \<and>
         meanOf ys = 0 \<and>
         varianceOf ys = varianceOf rs / (varianceOf rs + 1 / 100000) \<and>
         varianceOf ys < 1)) \<and>
   ((\<forall>r\<in>set rs. r = c) \<longrightarrow> layerNorm (map Number rs) = map (\<lambda>r. Number 0) rs)"
proof (intro conjI impI)
  assume ne: "rs \<noteq> []"
  define s where "s = sqrt (varianceOf rs + 1 / 100000)"
  define ys where "ys = map (\<lambda>r. (r - meanOf rs) / s) rs"
  have sp: "0 < s" using std_pos [of rs] by (simp add: s_def)
  have ss: "s * s = varianceOf rs + 1 / 100000"
    using varianceOf_nonneg [of rs] by (simp add: s_def)
  have 1: "layerNorm (map Number rs) = map Number ys"
    using layerNorm_Number [OF ne] by (simp add: ys_def s_def comp_def)
  have 2: "length ys = length rs" by (simp add: ys_def)
  have 3: "\<forall>i<length rs. ys ! i = (rs ! i - meanOf rs) / s" by (simp add: ys_def)
  have 4: "meanOf ys = 0" unfolding ys_def by (rule normalised_mean [OF ne])
  have 5: "varianceOf ys = varianceOf rs / (varianceOf rs + 1 / 100000)"
    unfolding ys_def normalised_variance [OF ne sp] ss ..
  have 6: "varianceOf ys < 1"
    unfolding 5 using varianceOf_nonneg [of rs] by (simp add: divide_less_eq)
  show "\<exists>ys. layerNorm (map Number rs) = map Number ys \<and> length ys = length rs \<and>
         (\<forall>i<length rs. ys ! i = (rs ! i - meanOf rs) / sqrt (varianceOf rs + 1 / 100000)) \<and>
         meanOf ys = 0 \<and>
         varianceOf ys = varianceOf rs / (varianceOf rs + 1 / 100000) \<and>
         varianceOf ys < 1"
    using 1 2 3 4 5 6 unfolding s_def by (intro exI [of _ ys]) simp
next
  assume c: "\<forall>r\<in>set rs. r = c"
  show "layerNorm (map Number rs) = map (\<lambda>r. Number 0) rs"
  proof (cases "rs = []")
    case True
    then show ?thesis by (simp add: layerNorm_def)
  next
    case False
    have rc: "rs = replicate (length rs) c"
      using c by (simp add: replicate_length_same)
    have "sum_list rs = real (length rs) * c"
      by (subst rc) (simp add: sum_list_replicate)
    then have "meanOf rs = c" using False by (simp add: meanOf_def)
    then have "map (\<lambda>r. Number ((r - meanOf rs) / sqrt (varianceOf rs + 1 / 100000))) rs
                 = map (\<lambda>r. Number 0) rs"
      using c by simp
    then show ?thesis using layerNorm_Number [OF False] by simp
  qed
qed

theorem layerNorm_normalises_witness:
  "[0, 1 / 500 :: real] \<noteq> [] \<and>
   (\<exists>ys. layerNorm [Number 0, Number (1 / 500)] = map Number ys \<and> meanOf ys = 0 \<and>
      varianceOf ys < 1) \<and>
   layerNorm [Number 3, Number 3] = [Number 0, Number 0]"
proof -
  have ne: "[0, 1 / 500 :: real] \<noteq> []" by simp
  have cs: "\<forall>r\<in>set [3, 3 :: real]. r = 3" by simp
  from layerNorm_normalises [of "[0, 1 / 500]" 0] ne
  obtain ys where "layerNorm (map Number [0, 1 / 500]) = map Number ys" "meanOf ys = 0"
    "varianceOf ys < 1"
    by blast
  then have a: "\<exists>ys. layerNorm [Number 0, Number (1 / 500)] = map Number ys \<and> meanOf ys = 0 \<and>
      varianceOf ys < 1"
    by auto
  from layerNorm_normalises [of "[3, 3]" 3] cs
  have "layerNorm (map Number [3, 3]) = map (\<lambda>r. Number 0) [3, 3 :: real]" by blast
  then have "layerNorm [Number 3, Number 3] = [Number 0, Number 0]" by simp
  with ne a show ?thesis by blast
qed

text \<open>
  C7 as stated fails: the input \<open>[0, 0.002]\<close> is finite and not constant, its variance is
  \<open>1e-6\<close>, and the variance of the output of \<open>layerNorm\<close> is 1/11, which is not
  approximately 1.
\<close>

theorem layerNorm_small_variance:
  "layerNorm [Number 0, Number (1 / 500)]
     = [Number (- (1 / 1000) / sqrt (11 / 1000000)), Number (1 / 1000 / sqrt (11 / 1000000))] \<and>
   varianceOf [0, 1 / 500] = 1 / 1000000 \<and>
   varianceOf [- (1 / 1000) / sqrt (11 / 1000000), 1 / 1000 / sqrt (11 / 1000000)] = 1 / 11"
proof -
  define s :: real where "s = sqrt (11 / 1000000)"
  have sp: "0 < s" by (simp add: s_def)
  have ss: "s * s = 11 / 1000000" by (simp add: s_def)
  have a: "[0, 1 / 500 :: real] \<noteq> []" by simp
  have m: "meanOf [0, 1 / 500] = 1 / 1000" by (simp add: meanOf_def)
  have v: "varianceOf [0, 1 / 500] = 1 / 1000000" by (simp add: varianceOf_def m)
  have l: "layerNorm [Number 0, Number (1 / 500)]
     = [Number (- (1 / 1000) / sqrt (11 / 1000000)), Number (1 / 1000 / sqrt (11 / 1000000))]"
    using layerNorm_Number [OF a] by (simp add: m v)
  have e: "[- (1 / 1000) / s, 1 / 1000 / s] = map (\<lambda>r. (r - meanOf [0, 1 / 500]) / s) [0, 1 / 500]"
    unfolding m by simp
  have "varianceOf [- (1 / 1000) / s, 1 / 1000 / s] = 1 / 11"
    unfolding e normalised_variance [OF a sp] ss v by simp
  with l v show ?thesis unfolding s_def by simp
qed

text \<open>
  C10. With an empty sequence of layers \<open>trainStep\<close> throws for every input: either
  \<open>forward\<close> throws, or \<open>result.layerOutputs\<close> is empty and the read of its element
  \<open>-1\<close> is \<open>undefined\<close>, whose \<open>ffnOutput\<close> cannot be read. \<open>forward\<close> itself returns on
  such weights for every non-empty sequence of valid token ids: it pushes no layer output
  and projects the embedding row of the last token through \<open>output.W\<close> and \<open>output.b\<close>.
\<close>

theorem trainStep_zero_layers:
  assumes "layers w = []"
  shows "trainStep toks tgt w lr g = Inl TypeError \<and>
         (toks \<noteq> [] \<and> (\<forall>t\<in>set toks. 0 \<le> t \<and> t < int (length (embeddings w))) \<longrightarrow>
          (\<exists>r. forward toks w target = Inr r \<and> layerOutputs r = [] \<and>
               logits r = vecAdd (matVecMul (W (outputLayer w)) (embeddings w ! nat (last toks)))
                            (b (outputLayer w))))"
proof
  show "trainStep toks tgt w lr g = Inl TypeError"
  proof (cases "forward toks w (Some tgt)")
    case (Inl e)
    then show ?thesis by (simp add: trainStep_def error_is_TypeError)
  next
    case (Inr res)
    then have "layerOutputs res = []"
      using assms by (auto simp: forward_def Let_def split: sum.splits)
    with Inr show ?thesis by (simp add: trainStep_def Let_def getAt_def)
  qed
next
  show "toks \<noteq> [] \<and> (\<forall>t\<in>set toks. 0 \<le> t \<and> t < int (length (embeddings w))) \<longrightarrow>
          (\<exists>r. forward toks w target = Inr r \<and> layerOutputs r = [] \<and>
               logits r = vecAdd (matVecMul (W (outputLayer w)) (embeddings w ! nat (last toks)))
                            (b (outputLayer w)))"
  proof
    assume a: "toks \<noteq> [] \<and> (\<forall>t\<in>set toks. 0 \<le> t \<and> t < int (length (embeddings w)))"
    then have l: "lookupAll (embeddings w) toks = Inr (map (\<lambda>t. embeddings w ! nat t) toks)"
      by (simp add: lookupAll_valid)
    have g: "getAt (map (\<lambda>t. embeddings w ! nat t) toks) (int (length toks) - 1)
             = Some (embeddings w ! nat (last toks))"
      using a by (simp add: getAt_def last_conv_nth nat_diff_distrib' )
    show "\<exists>r. forward toks w target = Inr r \<and> layerOutputs r = [] \<and>
               logits r = vecAdd (matVecMul (W (outputLayer w)) (embeddings w ! nat (last toks)))
                            (b (outputLayer w))"
      using assms l g by (simp add: forward_def Let_def matVecMulU_def)
  qed
qed

theorem trainStep_zero_layers_witness:
  "layers zeroLayerWeights = [] \<and> trainStep [0, 1] 1 zeroLayerWeights (Number (1 / 10)) (constRng (1 / 2)) = Inl TypeError \<and>
   (\<exists>r. forward [0, 1] zeroLayerWeights (Some 1) = Inr r \<and> logits r = [Number 3, Number 4])"
proof -
  have z: "layers zeroLayerWeights = []" by (simp add: zeroLayerWeights_def)
  have v: "[0, 1] \<noteq> [] \<and> (\<forall>t\<in>set [0, 1]. 0 \<le> t \<and> t < int (length (embeddings zeroLayerWeights)))"
    by (simp add: zeroLayerWeights_def)
  from trainStep_zero_layers [OF z, of "[0, 1]" 1 "Number (1 / 10)" "constRng (1 / 2)" "Some 1"] v
  obtain r where t: "trainStep [0, 1] 1 zeroLayerWeights (Number (1 / 10)) (constRng (1 / 2)) = Inl TypeError"
    and r: "forward [0, 1] zeroLayerWeights (Some 1) = Inr r"
      "logits r = vecAdd (matVecMul (W (outputLayer zeroLayerWeights)) (embeddings zeroLayerWeights ! nat (last [0, 1])))
                            (b (outputLayer zeroLayerWeights))"
    by blast
  have "logits r = [Number 3, Number 4]"
    unfolding r(2) by (simp add: zeroLayerWeights_def matVecMul_def dotProduct_def)
  with z t r(1) show ?thesis by blast
qed

text \<open>
  C3 at a concrete head. With \<open>embedDim = 2\<close> and \<open>numHeads = 2\<close> (so \<open>headDim = 1\<close>) the
  matrices \<open>Wq\<close> and \<open>Wk\<close> are 2 by 1. \<open>matVecMul\<close> returns one element per row, so
  \<open>Q[0]\<close> and \<open>K[0]\<close> have 2 elements, \<open>dk = 2\<close>, and the raw score is the dot product 2
  divided by \<open>sqrt 2\<close>, not by \<open>sqrt headDim = 1\<close>.
\<close>

theorem rawScores_scale_evaluated:
  "project (Wq headA) [[Number 1, Number 1]] = [[Number 1, Number 1]] \<and>
   project (Wk headA) [[Number 1, Number 1]] = [[Number 1, Number 1]] \<and>
   rawScores [[Number 1, Number 1]] headA = Inr [[Number (2 / sqrt 2)]] \<and>
   ndiv (dotProduct [Number 1, Number 1] [Number 1, Number 1]) (nsqrt (Number (real (2 div 2))))
     = Number 2 \<and>
   Number (2 / sqrt 2) \<noteq> Number 2"
  by (simp add: headA_def engine_defs two_over_sqrt_two)

text \<open>
  C4 at a concrete layer. With \<open>embedDim = 2\<close> and two heads of \<open>headDim = 1\<close> (\<open>Wv\<close> 2 by
  1) every head output has 2 elements per position, not \<open>headDim = 1\<close>, and the combined
  output is the average of the heads at the same dimension \<open>d\<close>: \<open>[(1 + 3) / 2, (2 + 4) / 2]\<close>.
  The average at dimension \<open>d mod headDim = 0\<close> would be \<open>[2, 2]\<close>.
\<close>

theorem combineHeads_evaluated:
  "runHeads [[Number 1, Number 1]] (heads (attention twoHeadLayer))
     = Inr ([[[Number 1]], [[Number 1]]], [[[Number 1, Number 2]], [[Number 3, Number 4]]]) \<and>
   map_sum id (\<lambda>(current, lo). attentionOutput lo) (layerStep [[Number 1, Number 1]] twoHeadLayer)
     = Inr [[Number 2, Number 3]]"
  by (simp add: twoHeadLayer_def headA_def headB_def engine_defs)

text \<open>
  C2 at concrete weights. With the shapes of \<open>initializeWeights\<close> for \<open>embedDim = 1\<close>, one
  head and two layers, the feed-forward block of the first layer multiplies a row of \<open>W1\<close>
  with 2 elements by a vector with 1 element and returns \<open>NaN\<close>. The input of the second
  layer is \<open>NaN\<close>, and every attention score of the second layer is \<open>NaN\<close>, also the one
  from position 0 to position 1: it is not 0.
\<close>

theorem causal_scores_evaluated:
  "map_sum id (\<lambda>r. attentionScores (layerOutputs r ! 1)) (forward [0, 0] twoLayerWeights None)
     = Inr [[[NaN, NaN], [NaN, NaN]]]"
  by (simp add: twoLayerWeights_def narrowLayer_def engine_defs)

text \<open>
  C1 at concrete weights. On weights with the shapes of
  \<open>initializeWeights(3, {embedDim: 2, numLayers: 1, numHeads: 1})\<close> the call throws: the
  loop over \<open>d\<close> runs over the 4 elements of the feed-forward output, and \<open>output.W\<close> has
  2 rows. On weights where every matrix is 2 by 2 the call returns; there the hidden vectors
  \<open>forward\<close> projects to the logits are \<open>[0, 0]\<close> at both positions, the feed-forward output
  of the last layer is \<open>[1, 1]\<close>, the probabilities are \<open>[1/2, 1/2]\<close>, and \<open>output.W\<close>
  changes from \<open>[[1, 2], [3, 4]]\<close> to \<open>[[3/2, 3/2], [7/2, 7/2]]\<close>: the update multiplies the
  error by the feed-forward output, not by the hidden vector, with which \<open>W\<close> would not
  change.
\<close>

theorem trainStep_output_update_evaluated:
  "trainStep [0, 1] 0 specWeights (Number (1 / 10)) (constRng (1 / 2)) = Inl TypeError \<and>
   map_sum id fst (runLayers [[Number 1, Number 1], [Number 1, Number 1]] (layers squareWeights))
     = Inr [[Number 0, Number 0], [Number 0, Number 0]] \<and>
   map_sum id (\<lambda>(r, g). (map ffnOutput (layerOutputs (result r)), probabilities (result r), outputLayer (newWeights r)))
     (trainStep [0, 1] 0 squareWeights (Number 1) (constRng (1 / 2)))
     = Inr ([[[Number 1, Number 1], [Number 1, Number 1]]], [Number (1 / 2), Number (1 / 2)],
            \<lparr>W = [[Number (3 / 2), Number (3 / 2)], [Number (7 / 2), Number (7 / 2)]],
             b = [Number (1 / 2), Number (- (1 / 2))]\<rparr>)"
  by (simp add: specWeights_def squareWeights_def engine_defs)

text \<open>
  C6, as amended. When \<open>trainStep\<close> returns and \<open>Math.random\<close> returns values in \<open>[0, 1)\<close>:
  the embedding matrix keeps its shape; every coordinate \<open>d\<close> of the row of token \<open>i\<close> is
  the input value with one term \<open>learningRate * delta * 0.1\<close> added for every position \<open>p\<close>
  of \<open>inputTokens\<close> that holds \<open>i\<close>, in order, as many terms as \<open>i\<close> has occurrences; the
  \<open>delta\<close> of position \<open>p\<close> and coordinate \<open>d\<close> is the value of call number
  \<open>drawIndex p d\<close> of \<open>Math.random\<close>, counted from the entry of \<open>trainStep\<close>, less 0.5, so
  in \<open>[-0.5, 0.5)\<close>; different pairs of a position and a coordinate have different calls;
  the call leaves the source of random numbers advanced by the number of calls made; and
  the row of a token that does not occur in \<open>inputTokens\<close> is unchanged.
\<close>

theorem trainStep_embedding_perturbation:
  assumes "\<forall>n. 0 \<le> g n \<and> g n < 1" and "trainStep toks tgt w lr g = Inr (r, g')"
  shows "length (embeddings (newWeights r)) = length (embeddings w) \<and>
         (\<forall>i<length (embeddings w).
            length (embeddings (newWeights r) ! i) = length (embeddings w ! i) \<and>
            length (occurrences toks i) = count_list toks (int i) \<and>
            (\<forall>d<length (embeddings w ! i).
               embeddings (newWeights r) ! i ! d =
                 foldl (\<lambda>y p. nadd y (nmul (nmul lr
                                   (Number (g (drawIndex (embeddings w) toks p d) - 1 / 2)))
                                   (Number (1 / 10))))
                   (embeddings w ! i ! d) (occurrences toks i)) \<and>
            (int i \<notin> set toks \<longrightarrow> embeddings (newWeights r) ! i = embeddings w ! i)) \<and>
         (\<forall>n. - (1 / 2) \<le> g n - 1 / 2 \<and> g n - 1 / 2 < 1 / 2) \<and>
         (\<forall>p<length toks. \<forall>q<length toks.
            \<forall>d<length (embeddings w ! nat (toks ! p)). \<forall>e<length (embeddings w ! nat (toks ! q)).
              drawIndex (embeddings w) toks p d = drawIndex (embeddings w) toks q e
                \<longrightarrow> p = q \<and> d = e) \<and>
         g' = (\<lambda>n. g (n + drawIndex (embeddings w) toks (length toks) 0))"
proof -
  from trainStep_embeddings [OF assms(2)]
  have p: "perturbTokens lr toks (embeddings w) g = Inr (embeddings (newWeights r), g')" by simp
  note s = perturbTokens_draws [OF p]
  have lens: "length (embeddings (newWeights r)) = length (embeddings w)"
    and adv: "g' = (\<lambda>n. g (n + drawIndex (embeddings w) toks (length toks) 0))"
    using s by simp_all
  have rows: "length (embeddings (newWeights r) ! i) = length (embeddings w ! i)"
    if "i < length (embeddings w)" for i
    using s that by simp
  have draws: "embeddings (newWeights r) ! i ! d =
      foldl (\<lambda>y p. nadd y (nmul (nmul lr (Number (g (drawIndex (embeddings w) toks p d) - 1 / 2)))
                              (Number (1 / 10))))
        (embeddings w ! i ! d) (occurrences toks i)"
    if i: "i < length (embeddings w)" and d: "d < length (embeddings w ! i)" for i d
    by (rule s [THEN conjunct2, THEN conjunct1, rule_format, OF i, THEN conjunct2, rule_format, OF d])
  have same: "embeddings (newWeights r) ! i = embeddings w ! i"
    if i: "i < length (embeddings w)" and absent: "int i \<notin> set toks" for i
  proof (rule nth_equalityI)
    show "length (embeddings (newWeights r) ! i) = length (embeddings w ! i)" by (rule rows [OF i])
  next
    fix d assume "d < length (embeddings (newWeights r) ! i)"
    then have d: "d < length (embeddings w ! i)" using rows [OF i] by simp
    have "length (occurrences toks i) = 0"
      using absent by (simp add: length_occurrences count_list_0_iff)
    then have "occurrences toks i = []" by simp
    then show "embeddings (newWeights r) ! i ! d = embeddings w ! i ! d"
      using draws [OF i d] by simp
  qed
  have range: "- (1 / 2) \<le> g n - 1 / 2 \<and> g n - 1 / 2 < 1 / 2" for n
    using assms(1) [rule_format, of n] by simp
  have inj: "p = q \<and> d = e"
    if "p < length toks" "q < length toks" "d < length (embeddings w ! nat (toks ! p))"
      "e < length (embeddings w ! nat (toks ! q))"
      "drawIndex (embeddings w) toks p d = drawIndex (embeddings w) toks q e" for p q d e
    using that by (rule drawIndex_inj)
  show ?thesis
    using lens rows draws same range inj adv length_occurrences by blast
qed

theorem trainStep_embedding_perturbation_witness:
  "(\<forall>n. 0 \<le> constRng (9 / 10) n \<and> constRng (9 / 10) n < 1) \<and>
   (\<exists>r g'. trainStep [0, 0] 0 squareWeights (Number 1) (constRng (9 / 10)) = Inr (r, g') \<and>
      length (embeddings (newWeights r)) = 2 \<and>
      embeddings (newWeights r) ! 1 = [Number 1, Number 1] \<and>
      g' = (\<lambda>n. constRng (9 / 10) (n + 4)))"
proof -
  have rng: "\<forall>n. 0 \<le> constRng (9 / 10) n \<and> constRng (9 / 10) n < 1"
    by (simp add: constRng_def)
  have "\<exists>x. trainStep [0, 0] 0 squareWeights (Number 1) (constRng (9 / 10)) = Inr x"
    by (simp add: squareWeights_def engine_defs)
  then obtain r g' where
    ok: "trainStep [0, 0] 0 squareWeights (Number 1) (constRng (9 / 10)) = Inr (r, g')"
    by (metis surj_pair)
  note t = trainStep_embedding_perturbation [OF rng ok]
  have len: "length (embeddings squareWeights) = 2" by (simp add: squareWeights_def)
  have one: "(1::nat) < length (embeddings squareWeights)" by (simp add: squareWeights_def)
  have absent: "int 1 \<notin> set [0, 0]" by simp
  have total: "drawIndex (embeddings squareWeights) [0, 0] (length [0, 0 :: int]) 0 = 4"
    by (simp add: drawIndex_def squareWeights_def)
  from t have "length (embeddings (newWeights r)) = 2" using len by simp
  moreover from t one absent
  have "embeddings (newWeights r) ! 1 = embeddings squareWeights ! 1" by blast
  then have "embeddings (newWeights r) ! 1 = [Number 1, Number 1]"
    by (simp add: squareWeights_def)
  moreover from t have "g' = (\<lambda>n. constRng (9 / 10) (n + 4))" using total by simp
  ultimately show ?thesis using rng ok by blast
qed

text \<open>
  C6 as stated fails for a token that occurs twice. With \<open>inputTokens = [0, 0]\<close>,
  \<open>learningRate = 1\<close> and a \<open>Math.random\<close> that returns 0.9, each coordinate of the row of
  token 0 goes from 1 to 1.08: two perturbations of 0.04. A single term
  \<open>learningRate * delta * 0.1\<close> equal to 0.08 needs \<open>delta = 0.8\<close>, which is not below 0.5.
\<close>

theorem trainStep_repeated_token:
  "map_sum id (\<lambda>(r, g). embeddings (newWeights r))
     (trainStep [0, 0] 0 squareWeights (Number 1) (constRng (9 / 10)))
     = Inr [[Number (27 / 25), Number (27 / 25)], [Number 1, Number 1]] \<and>
   embeddings squareWeights = [[Number 1, Number 1], [Number 1, Number 1]] \<and>
   Number (27 / 25) = nadd (Number 1) (nmul (nmul (Number 1) (Number (4 / 5))) (Number (1 / 10))) \<and>
   \<not> (4 / 5 < (1 / 2 :: real))"
  by (simp add: squareWeights_def engine_defs)

text \<open>
  C9. \<open>forward\<close>, embedded with the source of random numbers handed through every call,
  callback and loop body, makes no call of \<open>Math.random\<close>: it returns the source in the
  state it received it, and its result is the value of the function \<open>forward\<close> of
  \<open>inputTokens\<close>, \<open>weights\<close> and \<open>targetToken\<close> alone. So two calls with identical
  \<open>inputTokens\<close>, \<open>weights\<close> and \<open>targetToken\<close>, made in any two states of the source,
  return identical results: the same logits, probabilities, predicted token and loss (and
  the same other fields), or both throw.
\<close>

theorem forward_deterministic:
  "snd (forwardR toks weights target g1) = g1 \<and>
   fst (forwardR toks weights target g1) = fst (forwardR toks weights target g2) \<and>
   fst (forwardR toks weights target g1) = forward toks weights target"
  by (simp add: forwardR_pure)

theorem forward_deterministic_witness:
  "fst (forwardR [0, 1] squareWeights (Some 0) (constRng (1 / 2)))
     = fst (forwardR [0, 1] squareWeights (Some 0) (constRng (9 / 10))) \<and>
   snd (forwardR [0, 1] squareWeights (Some 0) (constRng (1 / 2))) = constRng (1 / 2) \<and>
   map_sum id probabilities (fst (forwardR [0, 1] squareWeights (Some 0) (constRng (1 / 2))))
     = Inr [Number (1 / 2), Number (1 / 2)]"
proof -
  have "map_sum id probabilities (forward [0, 1] squareWeights (Some 0))
          = Inr [Number (1 / 2), Number (1 / 2)]"
    by (simp add: squareWeights_def engine_defs)
  moreover note d = forward_deterministic [of "[0, 1]" squareWeights "Some 0" "constRng (1 / 2)"
      "constRng (9 / 10)"]
  ultimately have "map_sum id probabilities
      (fst (forwardR [0, 1] squareWeights (Some 0) (constRng (1 / 2))))
        = Inr [Number (1 / 2), Number (1 / 2)]"
    by (simp only: d [THEN conjunct2, THEN conjunct2])
  with d show ?thesis by blast
qed



text \<open>
  C5. On a well-formed store that holds the weights \<open>w\<close> at the references \<open>wr\<close>, every
  call of \<open>trainStep\<close>, whether it returns or throws, leaves every array that existed
  before the call as it was, so the input still reads as \<open>w\<close>. When the call returns, the
  arrays reachable from \<open>newWeights\<close>, at any depth, are disjoint from the arrays
  reachable from the input, and \<open>newWeights\<close> holds the value the update loops compute
  from a copy of \<open>w\<close>, whose layers (every \<open>Wq\<close>, \<open>Wk\<close>, \<open>Wv\<close>, \<open>W1\<close>, \<open>b1\<close>, \<open>W2\<close>,
  \<open>b2\<close>) are those of \<open>w\<close>: only \<open>embeddings\<close> and \<open>output\<close> may differ.
\<close>

theorem trainStep_copy_frame:
  assumes "wfStore s" and "readWeights s wr = Some w"
    and "trainStepS toks tgt wr lr g s = (out, s')"
  shows "readWeights s' wr = Some w \<and>
         (\<forall>a<fresh s. arrays s' a = arrays s a) \<and>
         (\<forall>rS g'. out = Inr (rS, g') \<longrightarrow>
            fpWeights s wr \<inter> fpWeights s' (newWeightsRef rS) = {} \<and>
            (\<exists>r. trainStep toks tgt w lr g = Inr (r, g') \<and>
                 readWeights s' (newWeightsRef rS) = Some (newWeights r) \<and>
                 layers (newWeights r) = layers w))"
proof -
  from trainStepS_refines [OF assms(1,2), of toks tgt lr g] assms(3)
  have old: "\<forall>a<fresh s. arrays s' a = arrays s a"
    and ref: "case trainStep toks tgt w lr g of
                Inl e \<Rightarrow> out = Inl (Thrown e)
              | Inr (r, g') \<Rightarrow>
                  (\<exists>rS. out = Inr (rS, g') \<and>
                     readWeights s' (newWeightsRef rS) = Some (newWeights r) \<and>
                     resultS rS = result r \<and> stepLossS rS = stepLoss r \<and>
                     fpWeights s' (newWeightsRef rS) \<subseteq> {fresh s..<fresh s'})"
    by auto
  note ok = footprintOK_readWeights
  have same: "readWeights s' wr = Some w"
    by (rule footprintOK_kept(1) [OF ok assms(1,2) old])
  have below: "fpWeights s wr \<subseteq> {..<fresh s}" by (rule footprintOK_old [OF ok assms(1,2)])
  have new: "fpWeights s wr \<inter> fpWeights s' (newWeightsRef rS) = {} \<and>
            (\<exists>r. trainStep toks tgt w lr g = Inr (r, g') \<and>
                 readWeights s' (newWeightsRef rS) = Some (newWeights r) \<and>
                 layers (newWeights r) = layers w)"
    if out: "out = Inr (rS, g')" for rS g'
  proof (cases "trainStep toks tgt w lr g")
    case (Inl e)
    with ref out show ?thesis by simp
  next
    case (Inr p)
    obtain r g0 where p: "p = (r, g0)" by (cases p)
    from ref Inr p out have g0: "g0 = g'"
      and rw: "readWeights s' (newWeightsRef rS) = Some (newWeights r)"
      and fp: "fpWeights s' (newWeightsRef rS) \<subseteq> {fresh s..<fresh s'}"
      by auto
    have ts: "trainStep toks tgt w lr g = Inr (r, g')" using Inr p g0 by simp
    have "fpWeights s wr \<inter> fpWeights s' (newWeightsRef rS) = {}"
      using below fp by fastforce
    then show ?thesis using ts rw trainStep_layers [OF ts] by blast
  qed
  show ?thesis using same old new by blast
qed

theorem trainStep_copy_frame_witness:
  "wfStore tinyStore \<and> readWeights tinyStore tinyRef = Some tinyWeights \<and>
   (\<exists>rS g' s'. trainStepS [0] 0 tinyRef (Number 1) (constRng (9 / 10)) tinyStore
                  = (Inr (rS, g'), s') \<and>
      readWeights s' tinyRef = Some tinyWeights \<and>
      fpWeights tinyStore tinyRef \<inter> fpWeights s' (newWeightsRef rS) = {} \<and>
      (\<exists>w'. readWeights s' (newWeightsRef rS) = Some w' \<and> layers w' = layers tinyWeights))"
proof -
  from tinyWeights_trainStep obtain r g' where
    ts: "trainStep [0] 0 tinyWeights (Number 1) (constRng (9 / 10)) = Inr (r, g')"
    by (metis surj_pair)
  from trainStepS_refines [OF tinyStore_wf tinyStore_read, of "[0]" 0 "Number 1" "constRng (9 / 10)"]
    ts
  obtain rS s' where
    tS: "trainStepS [0] 0 tinyRef (Number 1) (constRng (9 / 10)) tinyStore = (Inr (rS, g'), s')"
    by auto
  from trainStep_copy_frame [OF tinyStore_wf tinyStore_read tS]
  show ?thesis using tinyStore_wf tinyStore_read tS by blast
qed

end
